theory Spec2Isabelle
  imports Main
begin

section \<open>Strings\<close>

text \<open>
  A JavaScript string is modelled as a \<open>string\<close> holding the UTF-8 bytes of the text.
  Every literal the program compares with, searches for or splits at is ASCII, and an ASCII
  byte never occurs inside a multi-byte UTF-8 sequence, so \<open>===\<close>, \<open>startsWith\<close>,
  \<open>indexOf\<close> and \<open>split\<close> with ASCII patterns agree on both representations.
\<close>

definition startsWith :: "string \<Rightarrow> string \<Rightarrow> bool" where
  \<comment> \<open>\<open>s.startsWith(p)\<close>\<close>
  "startsWith p s = (take (length p) s = p)"

fun indexOf_from :: "int \<Rightarrow> string \<Rightarrow> string \<Rightarrow> int" where
  "indexOf_from i p [] = (if p = [] then i else - 1)"
| "indexOf_from i p (c # cs) =
     (if startsWith p (c # cs) then i else indexOf_from (i + 1) p cs)"

definition indexOf :: "string \<Rightarrow> string \<Rightarrow> int" where
  \<comment> \<open>\<open>s.indexOf(p)\<close>: the position of the first occurrence of \<open>p\<close>, or \<open>-1\<close>\<close>
  "indexOf s p = indexOf_from 0 p s"

fun split :: "char \<Rightarrow> string \<Rightarrow> string list" where
  \<comment> \<open>\<open>s.split(d)\<close> for a one-character separator\<close>
  "split d [] = [[]]"
| "split d (c # cs) =
     (if c = d then [] # split d cs
      else (case split d cs of [] \<Rightarrow> [[c]] | w # ws \<Rightarrow> (c # w) # ws))"

definition element :: "'a list \<Rightarrow> nat \<Rightarrow> 'a option" where
  \<comment> \<open>\<open>xs[i]\<close>: reading past the end gives \<open>undefined\<close>, here \<open>None\<close>\<close>
  "element xs i = (if i < length xs then Some (xs ! i) else None)"

definition interpolate :: "string option \<Rightarrow> string" where
  \<comment> \<open>a possibly undefined string inside a template literal\<close>
  "interpolate v = (case v of None \<Rightarrow> ''undefined'' | Some s \<Rightarrow> s)"

definition upper_table :: "(char \<times> char) list" where
  "upper_table = zip ''abcdefghijklmnopqrstuvwxyz'' ''ABCDEFGHIJKLMNOPQRSTUVWXYZ''"

definition special_upper :: "(string \<times> string) list" where
  \<comment> \<open>the characters outside ASCII whose upper case is made of ASCII letters, as UTF-8,
      each with its upper case: U+00DF, U+0131, U+017F, and the ligatures U+FB00 to
      U+FB06\<close>
  "special_upper =
     [([CHR 0xC3, CHR 0x9F], ''SS''),
      ([CHR 0xC4, CHR 0xB1], ''I''),
      ([CHR 0xC5, CHR 0xBF], ''S''),
      ([CHR 0xEF, CHR 0xAC, CHR 0x80], ''FF''),
      ([CHR 0xEF, CHR 0xAC, CHR 0x81], ''FI''),
      ([CHR 0xEF, CHR 0xAC, CHR 0x82], ''FL''),
      ([CHR 0xEF, CHR 0xAC, CHR 0x83], ''FFI''),
      ([CHR 0xEF, CHR 0xAC, CHR 0x84], ''FFL''),
      ([CHR 0xEF, CHR 0xAC, CHR 0x85], ''ST''),
      ([CHR 0xEF, CHR 0xAC, CHR 0x86], ''ST'')]"

definition upperSpecial :: "string \<Rightarrow> (string \<times> string) option" where
  \<comment> \<open>the character of \<open>special_upper\<close> that \<open>s\<close> starts with, if any\<close>
  "upperSpecial s = find (\<lambda>e. startsWith (fst e) s) special_upper"

definition upperChar :: "char \<Rightarrow> char" where
  "upperChar c = (case map_of upper_table c of None \<Rightarrow> c | Some u \<Rightarrow> u)"

function toUpperCase :: "string \<Rightarrow> string" where
  \<comment> \<open>\<open>s.toUpperCase()\<close>. The letters \<open>a\<close> to \<open>z\<close> and the characters of
      \<open>special_upper\<close> are mapped as JavaScript maps them. Every other character of
      ASCII is its own upper case. Every other character outside ASCII has an upper case
      outside ASCII; its bytes are kept, so that the result is an ASCII string exactly
      when JavaScript's is, and is then the same string. The program only compares the
      result with ASCII literals.\<close>
  "toUpperCase s =
     (if s = [] then []
      else
        (case upperSpecial s of
           Some e \<Rightarrow> snd e @ toUpperCase (drop (length (fst e)) s)
         | None \<Rightarrow> upperChar (hd s) # toUpperCase (tl s)))"
  by pat_completeness auto
termination
proof (relation "measure length")
  show "wf (measure length)" by simp
next
  fix s :: string and e :: "string \<times> string"
  assume "s \<noteq> []" and "upperSpecial s = Some e"
  then have "e \<in> set special_upper"
    by (auto simp: upperSpecial_def find_Some_iff)
  then have "fst e \<noteq> []"
    by (auto simp: special_upper_def)
  with \<open>s \<noteq> []\<close> show "(drop (length (fst e)) s, s) \<in> measure length"
    by simp
next
  fix s :: string
  assume "s \<noteq> []"
  then show "(tl s, s) \<in> measure length"
    by (cases s) simp_all
qed

subsection \<open>Decimal numerals\<close>

definition digit_table :: "(char \<times> nat) list" where
  "digit_table =
     [(CHR ''0'', 0), (CHR ''1'', 1), (CHR ''2'', 2), (CHR ''3'', 3), (CHR ''4'', 4),
      (CHR ''5'', 5), (CHR ''6'', 6), (CHR ''7'', 7), (CHR ''8'', 8), (CHR ''9'', 9),
      (CHR ''a'', 10), (CHR ''b'', 11), (CHR ''c'', 12), (CHR ''d'', 13), (CHR ''e'', 14),
      (CHR ''f'', 15),
      (CHR ''A'', 10), (CHR ''B'', 11), (CHR ''C'', 12), (CHR ''D'', 13), (CHR ''E'', 14),
      (CHR ''F'', 15)]"

definition isRadixDigit :: "nat \<Rightarrow> char \<Rightarrow> bool" where
  "isRadixDigit r c = (case map_of digit_table c of None \<Rightarrow> False | Some d \<Rightarrow> d < r)"

definition digitValue :: "char \<Rightarrow> nat" where
  "digitValue c = (case map_of digit_table c of None \<Rightarrow> 0 | Some d \<Rightarrow> d)"

definition numeralValue :: "nat \<Rightarrow> string \<Rightarrow> nat" where
  \<comment> \<open>the value of a digit string in radix \<open>r\<close>\<close>
  "numeralValue r ds = foldl (\<lambda>acc c. acc * r + digitValue c) 0 ds"

definition digitChar :: "nat \<Rightarrow> char" where
  "digitChar d = ''0123456789'' ! d"

function decimal :: "nat \<Rightarrow> string" where
  \<comment> \<open>a non-negative integer inside a template literal: its decimal numeral\<close>
  "decimal n = (if n < 10 then [digitChar n] else decimal (n div 10) @ [digitChar (n mod 10)])"
  by pat_completeness auto
termination
  by (relation "measure id") auto

subsection \<open>Leading white space\<close>

definition whiteSpace :: "string list" where
  \<comment> \<open>the WhiteSpace and LineTerminator code points of ECMAScript, as UTF-8:
      TAB, LF, VT, FF, CR, SP, U+00A0, U+1680, U+2000 to U+200A, U+2028, U+2029,
      U+202F, U+205F, U+3000, U+FEFF\<close>
  "whiteSpace =
     [[CHR 0x09], [CHR 0x0A], [CHR 0x0B], [CHR 0x0C], [CHR 0x0D], [CHR 0x20],
      [CHR 0xC2, CHR 0xA0],
      [CHR 0xE1, CHR 0x9A, CHR 0x80],
      [CHR 0xE2, CHR 0x80, CHR 0x80], [CHR 0xE2, CHR 0x80, CHR 0x81],
      [CHR 0xE2, CHR 0x80, CHR 0x82], [CHR 0xE2, CHR 0x80, CHR 0x83],
      [CHR 0xE2, CHR 0x80, CHR 0x84], [CHR 0xE2, CHR 0x80, CHR 0x85],
      [CHR 0xE2, CHR 0x80, CHR 0x86], [CHR 0xE2, CHR 0x80, CHR 0x87],
      [CHR 0xE2, CHR 0x80, CHR 0x88], [CHR 0xE2, CHR 0x80, CHR 0x89],
      [CHR 0xE2, CHR 0x80, CHR 0x8A],
      [CHR 0xE2, CHR 0x80, CHR 0xA8], [CHR 0xE2, CHR 0x80, CHR 0xA9],
      [CHR 0xE2, CHR 0x80, CHR 0xAF],
      [CHR 0xE2, CHR 0x81, CHR 0x9F],
      [CHR 0xE3, CHR 0x80, CHR 0x80],
      [CHR 0xEF, CHR 0xBB, CHR 0xBF]]"

definition leadingWhiteSpace :: "string \<Rightarrow> nat" where
  \<comment> \<open>the number of bytes of the white space character \<open>s\<close> starts with, or 0\<close>
  "leadingWhiteSpace s =
     (case find (\<lambda>w. startsWith w s) whiteSpace of None \<Rightarrow> 0 | Some w \<Rightarrow> length w)"

function trimStart :: "string \<Rightarrow> string" where
  "trimStart s =
     (if leadingWhiteSpace s = 0 then s else trimStart (drop (leadingWhiteSpace s) s))"
  by pat_completeness auto
termination
proof (relation "measure length")
  show "wf (measure length)" by simp
next
  fix s :: string
  assume "leadingWhiteSpace s \<noteq> 0"
  then obtain w where w: "find (\<lambda>w. startsWith w s) whiteSpace = Some w" and "w \<noteq> []"
    by (auto simp: leadingWhiteSpace_def split: option.splits)
  then have "startsWith w s"
    by (auto simp: find_Some_iff)
  with \<open>w \<noteq> []\<close> have "s \<noteq> []"
    by (auto simp: startsWith_def)
  with \<open>leadingWhiteSpace s \<noteq> 0\<close> show "(drop (leadingWhiteSpace s) s, s) \<in> measure length"
    by simp
qed

definition stripSign :: "string \<Rightarrow> bool \<times> string" where
  \<comment> \<open>an optional leading \<open>+\<close> or \<open>-\<close>: whether the sign is negative, and the rest\<close>
  "stripSign s =
     (case s of
        c # cs \<Rightarrow> if c = CHR ''-'' then (True, cs) else if c = CHR ''+'' then (False, cs)
                  else (False, s)
      | [] \<Rightarrow> (False, s))"

section \<open>Numbers\<close>

text \<open>
  A Number is \<open>NaN\<close>, an infinity, or the double nearest to a decimal
  \<open>\<plusminus> m * 10 ^ e\<close>, which is kept exactly; the rounding to a double is applied where a
  property reads the value (\<open>isFinite\<close>).
\<close>

datatype jsnum = NaN | Infinity bool | Decimal bool nat int

definition isNaN :: "jsnum \<Rightarrow> bool" where
  "isNaN x = (x = NaN)"

definition isFinite :: "jsnum \<Rightarrow> bool" where
  \<comment> \<open>a decimal of magnitude \<open>2^1024 - 2^970\<close> or more rounds to an infinity\<close>
  "isFinite x =
     (case x of
        NaN \<Rightarrow> False
      | Infinity _ \<Rightarrow> False
      | Decimal _ m e \<Rightarrow>
          (if 0 \<le> e then int m * 10 ^ nat e < 2 ^ 1024 - 2 ^ 970
           else int m < (2 ^ 1024 - 2 ^ 970) * 10 ^ nat (- e)))"

definition parseInt :: "string \<Rightarrow> int option" where
  \<comment> \<open>\<open>parseInt(s)\<close> with no radix: \<open>None\<close> is NaN, \<open>Some i\<close> the integer read
      (the Number is the double nearest to it)\<close>
  "parseInt s =
     (let (neg, u) = stripSign (trimStart s);
          hex = (startsWith ''0x'' u \<or> startsWith ''0X'' u);
          r = (if hex then 16 else 10);
          v = (if hex then drop 2 u else u);
          ds = takeWhile (isRadixDigit r) v
      in if ds = [] then None
         else Some ((if neg then - 1 else 1) * int (numeralValue r ds)))"

definition exponentPart :: "string \<Rightarrow> int" where
  \<comment> \<open>the value of an ExponentPart at the start of \<open>s\<close>, 0 when there is none\<close>
  "exponentPart s =
     (case s of
        c # cs \<Rightarrow>
          if c = CHR ''e'' \<or> c = CHR ''E'' then
            (let (neg, u) = stripSign cs; ds = takeWhile (isRadixDigit 10) u
             in if ds = [] then 0 else (if neg then - 1 else 1) * int (numeralValue 10 ds))
          else 0
      | [] \<Rightarrow> 0)"

definition parseFloat :: "string \<Rightarrow> jsnum" where
  \<comment> \<open>\<open>parseFloat(s)\<close>: the longest prefix of the trimmed string that is a
      StrDecimalLiteral, NaN when there is none\<close>
  "parseFloat s =
     (let (neg, u) = stripSign (trimStart s)
      in if startsWith ''Infinity'' u then Infinity neg
         else
           (let ip = takeWhile (isRadixDigit 10) u;
                r1 = dropWhile (isRadixDigit 10) u;
                dot = (r1 \<noteq> [] \<and> hd r1 = CHR ''.'');
                fp = (if dot then takeWhile (isRadixDigit 10) (tl r1) else []);
                r2 = (if dot then dropWhile (isRadixDigit 10) (tl r1) else r1)
            in if ip = [] \<and> fp = [] then NaN
               else Decimal neg (numeralValue 10 (ip @ fp)) (exponentPart r2 - int (length fp))))"

section \<open>Values\<close>

text \<open>
  The values a reply can carry. An object is the list of its own enumerable properties in
  the order \<open>Object.keys\<close> lists them (the keys of an object are distinct; a lookup
  reads the first entry of a key); an array is the list of its elements.
\<close>

datatype json =
    JNull
  | JBool bool
  | JNum jsnum
  | JStr string
  | JArr "json list"
  | JObj "(string \<times> json) list"

text \<open>
  What reading a property gives: the value of an own property, a member inherited from
  the prototype chain (named, not interpreted), or \<open>undefined\<close>.
\<close>

datatype property = Own json | Inherited string | Undefined

definition object_prototype :: "string list" where
  \<comment> \<open>the string-keyed properties of \<open>Object.prototype\<close>\<close>
  "object_prototype =
     [''constructor'', ''__defineGetter__'', ''__defineSetter__'', ''hasOwnProperty'',
      ''__lookupGetter__'', ''__lookupSetter__'', ''isPrototypeOf'',
      ''propertyIsEnumerable'', ''toString'', ''valueOf'', ''__proto__'',
      ''toLocaleString'']"

definition array_prototype :: "string list" where
  \<comment> \<open>the string-keyed properties of \<open>Array.prototype\<close> (ECMAScript 2023)\<close>
  "array_prototype =
     [''length'', ''constructor'', ''at'', ''concat'', ''copyWithin'', ''fill'', ''find'',
      ''findIndex'', ''findLast'', ''findLastIndex'', ''lastIndexOf'', ''pop'', ''push'',
      ''reverse'', ''shift'', ''unshift'', ''slice'', ''sort'', ''splice'', ''includes'',
      ''indexOf'', ''join'', ''keys'', ''entries'', ''values'', ''forEach'', ''filter'',
      ''flat'', ''flatMap'', ''map'', ''every'', ''some'', ''reduce'', ''reduceRight'',
      ''toLocaleString'', ''toString'', ''toReversed'', ''toSorted'', ''toSpliced'',
      ''with'']"

definition arrayIndex :: "string \<Rightarrow> nat option" where
  \<comment> \<open>a property key that is a canonical array index: a decimal numeral with no
      leading zero\<close>
  "arrayIndex k =
     (if k \<noteq> [] \<and> list_all (isRadixDigit 10) k \<and> decimal (numeralValue 10 k) = k
      then Some (numeralValue 10 k) else None)"

definition isObject :: "json \<Rightarrow> bool" where
  \<comment> \<open>\<open>v && typeof v === 'object'\<close>: objects and arrays; \<open>null\<close> is falsy\<close>
  "isObject v = (case v of JObj _ \<Rightarrow> True | JArr _ \<Rightarrow> True | _ \<Rightarrow> False)"

definition hasOwn :: "json \<Rightarrow> string \<Rightarrow> bool" where
  \<comment> \<open>\<open>k\<close> is an own property of \<open>v\<close>\<close>
  "hasOwn v k =
     (case v of
        JObj ps \<Rightarrow> k \<in> set (map fst ps)
      | JArr xs \<Rightarrow>
          k = ''length'' \<or> (case arrayIndex k of None \<Rightarrow> False | Some i \<Rightarrow> i < length xs)
      | _ \<Rightarrow> False)"

definition hasProperty :: "string \<Rightarrow> json \<Rightarrow> bool" where
  \<comment> \<open>\<open>k in v\<close>: own properties and those of the prototype chain. The program
      evaluates it on objects and arrays only (on a primitive it would throw).\<close>
  "hasProperty k v =
     (case v of
        JObj ps \<Rightarrow> hasOwn v k \<or> k \<in> set object_prototype
      | JArr xs \<Rightarrow> hasOwn v k \<or> k \<in> set array_prototype \<or> k \<in> set object_prototype
      | _ \<Rightarrow> False)"

definition getProperty :: "json \<Rightarrow> string \<Rightarrow> property" where
  \<comment> \<open>\<open>v[k]\<close> on an object or an array\<close>
  "getProperty v k =
     (case v of
        JObj ps \<Rightarrow>
          (case map_of ps k of
             Some x \<Rightarrow> Own x
           | None \<Rightarrow> if k \<in> set object_prototype then Inherited k else Undefined)
      | JArr xs \<Rightarrow>
          (if k = ''length'' then Own (JNum (Decimal False (length xs) 0))
           else
             (case arrayIndex k of
                Some i \<Rightarrow>
                  if i < length xs then Own (xs ! i)
                  else if k \<in> set array_prototype \<or> k \<in> set object_prototype
                  then Inherited k else Undefined
              | None \<Rightarrow>
                  if k \<in> set array_prototype \<or> k \<in> set object_prototype
                  then Inherited k else Undefined))
      | _ \<Rightarrow> Undefined)"

definition Object_keys :: "json \<Rightarrow> string list" where
  \<comment> \<open>\<open>Object.keys(v)\<close> on an object or an array\<close>
  "Object_keys v =
     (case v of
        JObj ps \<Rightarrow> map fst ps
      | JArr xs \<Rightarrow> map decimal [0..<length xs]
      | _ \<Rightarrow> [])"

section \<open>The request executor\<close>

definition API_BASE_URL :: string where
  "API_BASE_URL = ''https://fakestoreapi.com''"

text \<open>
  The second argument of \<open>fetch\<close>. The body is the text \<open>JSON.stringify\<close> makes of the
  payload; the text is not computed, the payload it is made of is kept.
\<close>

datatype body_text = JSON_stringify "(string \<times> json) list"

record options =
  opt_method :: string
  opt_headers :: "(string \<times> string) list"
  opt_body :: "body_text option"

text \<open>
  What the program reads of a reply: the status code and text, the \<open>content-type\<close>
  header (\<open>None\<close> when absent), and what \<open>text()\<close> and \<open>json()\<close> give; \<open>Inl\<close> is the
  message of the error they throw.
\<close>

record response =
  resp_status :: nat
  resp_statusText :: string
  resp_contentType :: "string option"
  resp_text :: "string + string"
  resp_json :: "string + json"

definition ok :: "response \<Rightarrow> bool" where
  \<comment> \<open>\<open>response.ok\<close>: the status is in the range 200 to 299\<close>
  "ok r = (200 \<le> resp_status r \<and> resp_status r \<le> 299)"

text \<open>
  The network: what \<open>fetch(url, options)\<close> resolves to, \<open>Inl\<close> the message of the error
  it rejects with.
\<close>

type_synonym fetch = "string \<Rightarrow> options \<Rightarrow> string + response"

text \<open>
  What an invocation does, in order: the network calls and the lines written to the
  console, one constructor for each \<open>console.log\<close> and \<open>console.error\<close> of the program,
  carrying the values the line shows.
\<close>

datatype event =
    NetCall string options
  | ApiRequestFailed string string string
  | Usage
  | ProductsObtained json
  | FieldValue string string property
  | FieldNotFound string string
  | AvailableFields "string list"
  | NotAnObject string json
  | ProductObtained json
  | InvalidRouteGET string
  | PostMissingArguments
  | PostExample
  | InvalidPrice
  | ProductCreated json
  | InvalidRoutePOST string
  | InvalidDeleteId
  | ProductDeleted string json
  | InvalidRouteDELETE string
  | UnrecognizedCommand string
  | MainOperationError string

definition build_options :: "string \<Rightarrow> (string \<times> json) list option \<Rightarrow> options" where
  \<comment> \<open>the \<open>options\<close> of \<open>apiRequest\<close>; \<open>body\<close> is an object or \<open>null\<close> (\<open>None\<close>)\<close>
  "build_options method body =
     (case body of
        Some b \<Rightarrow>
          if method = ''POST'' \<or> method = ''PUT'' then
            \<lparr>opt_method = method,
             opt_headers = [(''Content-Type'', ''application/json'')],
             opt_body = Some (JSON_stringify b)\<rparr>
          else \<lparr>opt_method = method, opt_headers = [], opt_body = None\<rparr>
      | None \<Rightarrow> \<lparr>opt_method = method, opt_headers = [], opt_body = None\<rparr>)"

definition namesJson :: "string option \<Rightarrow> bool" where
  \<comment> \<open>\<open>contentType && contentType.indexOf("application/json") !== -1\<close>\<close>
  "namesJson contentType =
     (case contentType of
        None \<Rightarrow> False
      | Some ct \<Rightarrow> ct \<noteq> [] \<and> indexOf ct ''application/json'' \<noteq> - 1)"

definition statusMessage :: "nat \<Rightarrow> json" where
  "statusMessage n = JObj [(''message'', JStr (''Operation successful. Status: '' @ decimal n))]"

definition read_response :: "response \<Rightarrow> string + json" where
  \<comment> \<open>the \<open>try\<close> block of \<open>apiRequest\<close> after \<open>fetch\<close> has resolved\<close>
  "read_response r =
     (if \<not> ok r then
        (case resp_text r of
           Inl msg \<Rightarrow> Inl msg
         | Inr errorBody \<Rightarrow>
             Inl (''Error '' @ decimal (resp_status r) @ '': '' @ resp_statusText r
                  @ ''. Body: '' @ errorBody))
      else if namesJson (resp_contentType r) then resp_json r
      else Inr (statusMessage (resp_status r)))"

definition apiRequest ::
  "fetch \<Rightarrow> string \<Rightarrow> string \<Rightarrow> (string \<times> json) list option \<Rightarrow> event list \<times> (string + json)"
where
  \<comment> \<open>the events of the call, and the value returned or (\<open>Inl\<close>) the message of the
      error thrown\<close>
  "apiRequest fetch endpoint method body =
     (let url = API_BASE_URL @ endpoint;
          options = build_options method body;
          outcome = (case fetch url options of Inl msg \<Rightarrow> Inl msg | Inr r \<Rightarrow> read_response r)
      in case outcome of
           Inl msg \<Rightarrow> ([NetCall url options, ApiRequestFailed method url msg], Inl msg)
         | Inr v \<Rightarrow> ([NetCall url options], Inr v))"

section \<open>The command interpreter\<close>

text \<open>
  Each branch of the \<open>switch\<close> gives its events and, when an error reaches the
  \<open>catch\<close> of \<open>main\<close>, that error's message.
\<close>

definition main_GET :: "fetch \<Rightarrow> string \<Rightarrow> string \<Rightarrow> string list \<Rightarrow> event list \<times> string option" where
  "main_GET fetch path endpoint args =
     (if path = ''products'' \<and> length args = 0 then
        (case apiRequest fetch endpoint ''GET'' None of
           (tr, Inl msg) \<Rightarrow> (tr, Some msg)
         | (tr, Inr result) \<Rightarrow> (tr @ [ProductsObtained result], None))
      else if startsWith ''products/'' path then
        (case apiRequest fetch endpoint ''GET'' None of
           (tr, Inl msg) \<Rightarrow> (tr, Some msg)
         | (tr, Inr productData) \<Rightarrow>
             (if length args > 0 then
                (let fieldToExtract = hd args;
                     productId = interpolate (element (split CHR ''/'' path) 1)
                 in if isObject productData \<and> hasProperty fieldToExtract productData then
                      (tr @ [FieldValue fieldToExtract productId
                               (getProperty productData fieldToExtract)], None)
                    else if isObject productData then
                      (tr @ [FieldNotFound fieldToExtract productId,
                             AvailableFields (Object_keys productData)], None)
                    else (tr @ [NotAnObject path productData], None))
              else (tr @ [ProductObtained productData], None)))
      else ([InvalidRouteGET path], None))"

definition default_description :: string where
  "default_description = ''Default product description''"

definition default_image :: string where
  "default_image = ''https://calculo-intereses.onrender.com''"

definition orDefault :: "string option \<Rightarrow> string \<Rightarrow> string" where
  \<comment> \<open>\<open>v || d\<close> for a string or \<open>undefined\<close>: the empty string is falsy too\<close>
  "orDefault v d = (case v of None \<Rightarrow> d | Some s \<Rightarrow> if s = [] then d else s)"

definition newProduct ::
  "string \<Rightarrow> jsnum \<Rightarrow> string \<Rightarrow> string option \<Rightarrow> string option \<Rightarrow> (string \<times> json) list"
where
  \<comment> \<open>the payload; \<open>description\<close> and \<open>image\<close> are \<open>undefined\<close> (\<open>None\<close>) when
      \<open>args\<close> has no fourth or fifth element\<close>
  "newProduct title price category description image' =
     [(''title'', JStr title),
      (''price'', JNum price),
      (''category'', JStr category),
      (''description'', JStr (orDefault description default_description)),
      (''image'', JStr (orDefault image' default_image))]"

definition main_POST :: "fetch \<Rightarrow> string \<Rightarrow> string \<Rightarrow> string list \<Rightarrow> event list \<times> string option" where
  \<comment> \<open>\<open>[title, priceStr, category, description, image] = args\<close> is read once
      \<open>args\<close> is known to have three elements or more\<close>
  "main_POST fetch path endpoint args =
     (if path = ''products'' then
        (if length args < 3 then ([PostMissingArguments, PostExample], None)
         else
           (let title = args ! 0; priceStr = args ! 1; category = args ! 2;
                description = element args 3; image' = element args 4;
                price = parseFloat priceStr
            in if isNaN price then ([InvalidPrice], None)
               else
                 (case apiRequest fetch endpoint ''POST''
                         (Some (newProduct title price category description image')) of
                    (tr, Inl msg) \<Rightarrow> (tr, Some msg)
                  | (tr, Inr result) \<Rightarrow> (tr @ [ProductCreated result], None))))
      else ([InvalidRoutePOST path], None))"

definition main_DELETE :: "fetch \<Rightarrow> string \<Rightarrow> string \<Rightarrow> event list \<times> string option" where
  "main_DELETE fetch path endpoint =
     (if startsWith ''products/'' path then
        (case element (split CHR ''/'' path) 1 of
           None \<Rightarrow> ([InvalidDeleteId], None)
         | Some productId \<Rightarrow>
             if productId = [] \<or> parseInt productId = None then ([InvalidDeleteId], None)
             else
               (case apiRequest fetch endpoint ''DELETE'' None of
                  (tr, Inl msg) \<Rightarrow> (tr, Some msg)
                | (tr, Inr result) \<Rightarrow> (tr @ [ProductDeleted productId result], None)))
      else ([InvalidRouteDELETE path], None))"

definition main :: "fetch \<Rightarrow> string list \<Rightarrow> event list" where
  \<comment> \<open>\<open>argv\<close> is \<open>process.argv\<close>: the first two elements are skipped, then come
      \<open>command\<close>, \<open>path\<close> and \<open>args\<close>; an absent or empty \<open>command\<close> or \<open>path\<close> is falsy\<close>
  "main fetch argv =
     (case drop 2 argv of
        command # path # args \<Rightarrow>
          if command = [] \<or> path = [] then [Usage]
          else
            (let method = toUpperCase command;
                 endpoint = ''/'' @ path;
                 (tr, thrown) =
                   (if method = ''GET'' then main_GET fetch path endpoint args
                    else if method = ''POST'' then main_POST fetch path endpoint args
                    else if method = ''DELETE'' then main_DELETE fetch path endpoint
                    else ([UnrecognizedCommand command], None))
             in case thrown of
                  None \<Rightarrow> tr
                | Some msg \<Rightarrow> tr @ [MainOperationError msg])
      | _ \<Rightarrow> [Usage])"

definition network_calls :: "event list \<Rightarrow> nat" where
  "network_calls tr = length (filter (\<lambda>e. case e of NetCall _ _ \<Rightarrow> True | _ \<Rightarrow> False) tr)"

definition single_call :: "string \<Rightarrow> options \<Rightarrow> event list \<Rightarrow> bool" where
  \<comment> \<open>the events start with the network call \<open>fetch(url, opts)\<close>, and hold no other\<close>
  "single_call url opts tr =
     (case tr of
        NetCall u o' # rest \<Rightarrow> u = url \<and> o' = opts \<and> network_calls rest = 0
      | _ \<Rightarrow> False)"

definition local_report :: "event list \<Rightarrow> bool" where
  \<comment> \<open>the events are one report made before any request: the usage help, an invalid
      route, a validation error, or an unrecognized command\<close>
  "local_report tr =
     (case tr of
        [Usage] \<Rightarrow> True
      | [InvalidRouteGET _] \<Rightarrow> True
      | [InvalidRoutePOST _] \<Rightarrow> True
      | [InvalidRouteDELETE _] \<Rightarrow> True
      | [PostMissingArguments, PostExample] \<Rightarrow> True
      | [InvalidPrice] \<Rightarrow> True
      | [InvalidDeleteId] \<Rightarrow> True
      | [UnrecognizedCommand _] \<Rightarrow> True
      | _ \<Rightarrow> False)"

section \<open>The requests the dispatcher forwards\<close>

text \<open>
  The guards of \<open>main\<close> under which a request reaches \<open>apiRequest\<close>, collected: for GET
  the path \<open>products\<close> with no extra argument, or a path that starts with \<open>products/\<close>;
  for POST the path \<open>products\<close> with three arguments or more, the second of which does
  not parse to NaN; for DELETE a path \<open>products/...\<close> whose suffix does not parse to NaN
  as an integer.
\<close>

definition forwarded :: "string \<Rightarrow> string \<Rightarrow> string list \<Rightarrow> bool" where
  "forwarded verb path args =
     (verb = ''GET'' \<and> (path = ''products'' \<and> args = [] \<or> startsWith ''products/'' path)
      \<or> verb = ''POST'' \<and> path = ''products'' \<and> 3 \<le> length args
           \<and> \<not> isNaN (parseFloat (args ! 1))
      \<or> verb = ''DELETE'' \<and> startsWith ''products/'' path
           \<and> parseInt (drop (length ''products/'') path) \<noteq> None)"

definition accepted :: "string list \<Rightarrow> bool" where
  \<comment> \<open>both tokens are present and not empty, and the request is one \<open>main\<close> forwards\<close>
  "accepted argv =
     (case drop 2 argv of
        command # path # args \<Rightarrow>
          command \<noteq> [] \<and> path \<noteq> [] \<and> forwarded (toUpperCase command) path args
      | _ \<Rightarrow> False)"

section \<open>The specification's notions\<close>

text \<open>
  A valid verb with a well-formed request, in the specification's words: for GET the
  path \<open>products\<close> with no extra argument, or a path \<open>products/<id>\<close> with any non-empty
  suffix after the slash; for POST the path \<open>products\<close> with at least three extra
  arguments, the price parsing as a finite number; for DELETE a path \<open>products/<id>\<close>
  whose suffix parses as an integer. Every other request is an invalid-route, a
  validation or an unrecognized-verb case.
\<close>

definition well_formed :: "string \<Rightarrow> string \<Rightarrow> string list \<Rightarrow> bool" where
  "well_formed verb path args =
     (verb = ''GET''
        \<and> (path = ''products'' \<and> args = []
            \<or> startsWith ''products/'' path \<and> drop (length ''products/'') path \<noteq> [])
      \<or> verb = ''POST'' \<and> path = ''products'' \<and> 3 \<le> length args
           \<and> isFinite (parseFloat (args ! 1))
      \<or> verb = ''DELETE'' \<and> startsWith ''products/'' path
           \<and> parseInt (drop (length ''products/'') path) \<noteq> None)"

text \<open>
  The two kinds of result, in the specification's words: a JsonValue is the structured
  data parsed from the body of the reply; a StatusMessage is the synthetic status
  message carrying the numeric status code of the reply.
\<close>

definition JsonValue :: "response \<Rightarrow> json \<Rightarrow> bool" where
  "JsonValue r v = (resp_json r = Inr v)"

definition StatusMessage :: "response \<Rightarrow> json \<Rightarrow> bool" where
  "StatusMessage r v =
     (v = JObj [(''message'', JStr (''Operation successful. Status: '' @ decimal (resp_status r)))])"

section \<open>Sample networks\<close>

definition offline :: fetch where
  \<comment> \<open>every call fails in transport\<close>
  "offline url opts = Inl ''fetch failed''"

definition replies :: "response \<Rightarrow> fetch" where
  \<comment> \<open>every call is answered by \<open>r\<close>\<close>
  "replies r url opts = Inr r"

definition json_reply :: "json \<Rightarrow> response" where
  \<comment> \<open>a 200 reply with a JSON body that parses to \<open>v\<close>\<close>
  "json_reply v =
     \<lparr>resp_status = 200, resp_statusText = ''OK'',
      resp_contentType = Some ''application/json; charset=utf-8'',
      resp_text = Inr [], resp_json = Inr v\<rparr>"

definition no_content :: response where
  \<comment> \<open>a 204 reply with no body and no content type\<close>
  "no_content =
     \<lparr>resp_status = 204, resp_statusText = ''No Content'', resp_contentType = None,
      resp_text = Inr [], resp_json = Inl ''Unexpected end of JSON input''\<rparr>"

definition status_shaped :: json where
  \<comment> \<open>the object \<open>{message: "Operation successful. Status: 200"}\<close>\<close>
  "status_shaped = JObj [(''message'', JStr ''Operation successful. Status: 200'')]"

definition backpack :: json where
  "backpack = JObj [(''id'', JNum (Decimal False 1 0)), (''title'', JStr ''Backpack'')]"

abbreviation segment :: "string \<Rightarrow> string" where
  \<comment> \<open>the part of a string before its first slash: \<open>s.split('/')[0]\<close>\<close>
  "segment s \<equiv> takeWhile (\<lambda>c. c \<noteq> CHR ''/'') s"

section \<open>Properties of the model\<close>

declare decimal.simps [simp del]

declare trimStart.simps [simp del]

declare toUpperCase.simps [simp del]

subsection \<open>Strings\<close>

lemma startsWith_Nil: "startsWith [] s"
  by (simp add: startsWith_def)

lemma startsWith_Cons:
  "startsWith (c # p) s = (case s of [] \<Rightarrow> False | d # t \<Rightarrow> c = d \<and> startsWith p t)"
  by (cases s) (auto simp: startsWith_def)

lemma startsWith_iff_append: "startsWith p s = (\<exists>t. s = p @ t)"
proof
  assume "startsWith p s"
  then have "s = p @ drop (length p) s"
    by (metis append_take_drop_id startsWith_def)
  then show "\<exists>t. s = p @ t" ..
next
  assume "\<exists>t. s = p @ t"
  then show "startsWith p s" by (auto simp: startsWith_def)
qed

lemma split_not_Nil: "split d s \<noteq> []"
  by (induction s) (auto split: list.splits)

lemma hd_split: "hd (split d s) = takeWhile (\<lambda>c. c \<noteq> d) s"
  by (induction s) (auto split: list.splits simp: split_not_Nil)

lemma split_append_separator:
  "d \<notin> set p \<Longrightarrow> split d (p @ d # s) = p # split d s"
  by (induction p) (auto split: list.splits)

lemma element_split_products:
  "element (split CHR ''/'' (''products/'' @ suffix)) 1 = Some (takeWhile (\<lambda>c. c \<noteq> CHR ''/'') suffix)"
proof -
  have "split CHR ''/'' (''products'' @ CHR ''/'' # suffix) = ''products'' # split CHR ''/'' suffix"
    by (rule split_append_separator) simp
  moreover obtain w ws where "split CHR ''/'' suffix = w # ws"
    using split_not_Nil [of "CHR ''/''" suffix] by (cases "split CHR ''/'' suffix") auto
  moreover from this have "w = takeWhile (\<lambda>c. c \<noteq> CHR ''/'') suffix"
    using hd_split [of "CHR ''/''" suffix] by simp
  ultimately show ?thesis
    by (simp add: element_def)
qed

lemma indexOf_from_found:
  "0 \<le> i \<Longrightarrow> (indexOf_from i p s \<noteq> - 1) = (\<exists>a b. s = a @ p @ b)"
proof (induction s arbitrary: i)
  case Nil
  then show ?case by auto
next
  case (Cons c cs)
  show ?case
  proof (cases "startsWith p (c # cs)")
    case True
    then obtain b where "c # cs = [] @ p @ b"
      by (auto simp: startsWith_iff_append)
    then have "\<exists>a b. c # cs = a @ p @ b" by blast
    with True Cons.prems show ?thesis by simp
  next
    case False
    have "(\<exists>a b. c # cs = a @ p @ b) = (\<exists>a b. cs = a @ p @ b)"
    proof
      assume "\<exists>a b. c # cs = a @ p @ b"
      then obtain a b where ab: "c # cs = a @ p @ b" by blast
      with False have "a \<noteq> []"
        by (auto simp: startsWith_iff_append)
      with ab obtain a' where "a = c # a'"
        by (cases a) auto
      with ab have "cs = a' @ p @ b" by simp
      then show "\<exists>a b. cs = a @ p @ b" by blast
    next
      assume "\<exists>a b. cs = a @ p @ b"
      then obtain a b where "cs = a @ p @ b" by blast
      then have "c # cs = (c # a) @ p @ b" by simp
      then show "\<exists>a b. c # cs = a @ p @ b" by blast
    qed
    with False Cons.IH [of "i + 1"] Cons.prems show ?thesis by simp
  qed
qed

lemma namesJson_iff:
  "namesJson contentType = (\<exists>a b. contentType = Some (a @ ''application/json'' @ b))"
proof (cases contentType)
  case None
  then show ?thesis by (simp add: namesJson_def)
next
  case (Some ct)
  have "(indexOf ct ''application/json'' \<noteq> - 1) = (\<exists>a b. ct = a @ ''application/json'' @ b)"
    unfolding indexOf_def by (rule indexOf_from_found) simp
  moreover have "(\<exists>a b. ct = a @ ''application/json'' @ b) \<Longrightarrow> ct \<noteq> []"
    by auto
  ultimately show ?thesis
    using Some by (auto simp: namesJson_def)
qed

lemma toUpperCase_ascii: "toUpperCase ''Delete'' = ''DELETE''"
  by code_simp

lemma toUpperCase_long_s: "toUpperCase (''po'' @ [CHR 0xC5, CHR 0xBF] @ ''t'') = ''POST''"
  by code_simp

lemma toUpperCase_ligature: "toUpperCase (''po'' @ [CHR 0xEF, CHR 0xAC, CHR 0x86]) = ''POST''"
  by code_simp

subsection \<open>Digits and numerals\<close>

lemma isRadixDigit_10: "isRadixDigit 10 c = (c \<in> set ''0123456789'')"
  by (auto simp: isRadixDigit_def digit_table_def)

lemma below_10: "(d::nat) < 10 \<Longrightarrow> d \<in> {0, 1, 2, 3, 4, 5, 6, 7, 8, 9}"
  by auto

lemma digitChar_digit: "d < 10 \<Longrightarrow> isRadixDigit 10 (digitChar d)"
  by (drule below_10) (auto simp: isRadixDigit_10 digitChar_def)

lemma digitValue_digitChar: "d < 10 \<Longrightarrow> digitValue (digitChar d) = d"
  by (drule below_10) (auto simp: digitValue_def digit_table_def digitChar_def)

lemma numeralValue_snoc: "numeralValue r (ds @ [c]) = numeralValue r ds * r + digitValue c"
  by (simp add: numeralValue_def)

lemma decimal_not_Nil: "decimal n \<noteq> []"
  by (subst decimal.simps) simp

lemma decimal_digits: "list_all (isRadixDigit 10) (decimal n)"
proof (induction n rule: decimal.induct)
  case (1 n)
  show ?case
  proof (cases "n < 10")
    case True
    then show ?thesis
      by (subst decimal.simps) (simp add: digitChar_digit)
  next
    case False
    with 1 show ?thesis
      by (subst decimal.simps) (simp add: digitChar_digit)
  qed
qed

lemma numeralValue_decimal: "numeralValue 10 (decimal n) = n"
proof (induction n rule: decimal.induct)
  case (1 n)
  show ?case
  proof (cases "n < 10")
    case True
    then show ?thesis
      by (subst decimal.simps) (simp add: numeralValue_def digitValue_digitChar)
  next
    case False
    with 1 show ?thesis
      by (subst decimal.simps) (simp add: numeralValue_snoc digitValue_digitChar)
  qed
qed

subsection \<open>White space\<close>

lemma leadingWhiteSpace_cong:
  assumes "\<And>w. w \<in> set whiteSpace \<Longrightarrow> startsWith w s = startsWith w t"
  shows "leadingWhiteSpace s = leadingWhiteSpace t"
proof -
  have "find (\<lambda>w. startsWith w s) whiteSpace = find (\<lambda>w. startsWith w t) whiteSpace"
    by (rule find_cong) (simp_all add: assms)
  then show ?thesis
    by (simp add: leadingWhiteSpace_def)
qed

lemma leadingWhiteSpace_prefix:
  assumes "leadingWhiteSpace s \<noteq> 0"
  obtains w where "w \<in> set whiteSpace" and "startsWith w s" and "leadingWhiteSpace s = length w"
proof -
  from assms obtain w where w: "find (\<lambda>w. startsWith w s) whiteSpace = Some w"
    by (auto simp: leadingWhiteSpace_def split: option.splits)
  then have "w \<in> set whiteSpace" "startsWith w s"
    by (auto simp: find_Some_iff)
  moreover from w have "leadingWhiteSpace s = length w"
    by (simp add: leadingWhiteSpace_def)
  ultimately show ?thesis ..
qed

lemma whiteSpace_first:
  "w \<in> set whiteSpace \<Longrightarrow>
     w \<noteq> [] \<and> hd w \<in> {CHR 0x09, CHR 0x0A, CHR 0x0B, CHR 0x0C, CHR 0x0D, CHR 0x20,
                          CHR 0xC2, CHR 0xE1, CHR 0xE2, CHR 0xE3, CHR 0xEF}"
  by (auto simp: whiteSpace_def)

lemma whiteSpace_no_slash: "w \<in> set whiteSpace \<Longrightarrow> CHR ''/'' \<notin> set w"
  by (auto simp: whiteSpace_def)

lemma leadingWhiteSpace_digit:
  assumes "s \<noteq> []" and "isRadixDigit 10 (hd s)"
  shows "leadingWhiteSpace s = 0"
proof (rule ccontr)
  assume "leadingWhiteSpace s \<noteq> 0"
  then obtain w where w: "w \<in> set whiteSpace" "startsWith w s"
    by (rule leadingWhiteSpace_prefix)
  from w(1) have "w \<noteq> []" and first: "hd w \<in> {CHR 0x09, CHR 0x0A, CHR 0x0B, CHR 0x0C, CHR 0x0D, CHR 0x20,
                          CHR 0xC2, CHR 0xE1, CHR 0xE2, CHR 0xE3, CHR 0xEF}"
    using whiteSpace_first by blast+
  with w(2) assms(1) have "hd s = hd w"
    by (cases w; cases s) (auto simp: startsWith_Cons)
  with first assms(2) show False
    by (auto simp: isRadixDigit_10)
qed

lemma leadingWhiteSpace_Nil: "leadingWhiteSpace [] = 0"
  by (simp add: leadingWhiteSpace_def whiteSpace_def startsWith_def)

subsection \<open>Reading a numeral back\<close>

lemma trimStart_digit: "s \<noteq> [] \<Longrightarrow> isRadixDigit 10 (hd s) \<Longrightarrow> trimStart s = s"
  by (subst trimStart.simps) (simp add: leadingWhiteSpace_digit)

lemma stripSign_digit: "s \<noteq> [] \<Longrightarrow> isRadixDigit 10 (hd s) \<Longrightarrow> stripSign s = (False, s)"
  by (cases s) (auto simp: stripSign_def isRadixDigit_10)

lemma takeWhile_all: "list_all P xs \<Longrightarrow> takeWhile P xs = xs"
  by (induction xs) auto

lemma digits_not_hex:
  assumes "list_all (isRadixDigit 10) s"
  shows "\<not> startsWith ''0x'' s" and "\<not> startsWith ''0X'' s"
  using assms by (auto simp: startsWith_Cons isRadixDigit_10 split: list.splits)

lemma parseInt_digits:
  assumes "s \<noteq> []" and "list_all (isRadixDigit 10) s"
  shows "parseInt s = Some (int (numeralValue 10 s))"
proof -
  from assms have "isRadixDigit 10 (hd s)"
    by (cases s) auto
  with assms(1) have "stripSign (trimStart s) = (False, s)"
    by (simp add: trimStart_digit stripSign_digit)
  with assms show ?thesis
    by (simp add: parseInt_def digits_not_hex takeWhile_all)
qed

lemma parseInt_decimal: "parseInt (decimal n) = Some (int n)"
  by (simp add: parseInt_digits decimal_not_Nil decimal_digits numeralValue_decimal)

lemma parseInt_Nil: "parseInt [] = None"
  by (simp add: parseInt_def trimStart.simps leadingWhiteSpace_Nil stripSign_def startsWith_def)

subsection \<open>The first path segment\<close>

lemma startsWith_segment:
  "CHR ''/'' \<notin> set w \<Longrightarrow> startsWith w (segment s) = startsWith w s"
proof (induction w arbitrary: s)
  case Nil
  show ?case by (simp add: startsWith_Nil)
next
  case (Cons c w)
  then show ?case
    by (cases s) (auto simp: startsWith_Cons)
qed

lemma segment_append: "CHR ''/'' \<notin> set w \<Longrightarrow> segment (w @ t) = w @ segment t"
  by (induction w) auto

lemma drop_segment:
  "startsWith w s \<Longrightarrow> CHR ''/'' \<notin> set w \<Longrightarrow> drop (length w) (segment s) = segment (drop (length w) s)"
  by (auto simp: startsWith_iff_append segment_append)

lemma leadingWhiteSpace_segment: "leadingWhiteSpace (segment s) = leadingWhiteSpace s"
  by (rule leadingWhiteSpace_cong) (simp add: startsWith_segment whiteSpace_no_slash)

lemma trimStart_segment: "trimStart (segment s) = segment (trimStart s)"
proof (induction s rule: trimStart.induct)
  case (1 s)
  show ?case
  proof (cases "leadingWhiteSpace s = 0")
    case True
    then show ?thesis
      by (subst (1 2) trimStart.simps) (simp add: leadingWhiteSpace_segment)
  next
    case False
    then obtain w where w: "w \<in> set whiteSpace" "startsWith w s" "leadingWhiteSpace s = length w"
      by (rule leadingWhiteSpace_prefix)
    then have "drop (leadingWhiteSpace s) (segment s) = segment (drop (leadingWhiteSpace s) s)"
      by (simp add: drop_segment whiteSpace_no_slash)
    with False 1 show ?thesis
      by (subst (1 2) trimStart.simps) (simp add: leadingWhiteSpace_segment)
  qed
qed

lemma stripSign_segment:
  "stripSign (segment s) = (fst (stripSign s), segment (snd (stripSign s)))"
  by (cases s) (auto simp: stripSign_def)

lemma takeWhile_segment:
  "\<not> P CHR ''/'' \<Longrightarrow> takeWhile P (segment s) = takeWhile P s"
  by (induction s) auto

lemma slash_not_digit: "\<not> isRadixDigit r CHR ''/''"
  by (simp add: isRadixDigit_def digit_table_def)

lemma parseInt_segment: "parseInt (segment s) = parseInt s"
proof -
  obtain neg u where u: "stripSign (trimStart s) = (neg, u)"
    by (cases "stripSign (trimStart s)")
  then have su: "stripSign (trimStart (segment s)) = (neg, segment u)"
    by (simp add: trimStart_segment stripSign_segment)
  have hex: "startsWith ''0x'' (segment u) = startsWith ''0x'' u"
    "startsWith ''0X'' (segment u) = startsWith ''0X'' u"
    by (simp_all add: startsWith_segment)
  have dr: "startsWith ''0x'' u \<or> startsWith ''0X'' u \<Longrightarrow> drop 2 (segment u) = segment (drop 2 u)"
    using drop_segment [of "''0x''" u] drop_segment [of "''0X''" u] by (auto simp: numeral_2_eq_2)
  show ?thesis
  proof (cases "startsWith ''0x'' u \<or> startsWith ''0X'' u")
    case True
    with dr have "drop 2 (segment u) = segment (drop 2 u)" .
    with True show ?thesis
      by (simp add: parseInt_def u su hex Let_def takeWhile_segment slash_not_digit)
  next
    case False
    then show ?thesis
      by (simp add: parseInt_def u su hex Let_def takeWhile_segment slash_not_digit)
  qed
qed

subsection \<open>The strings that parse to NaN\<close>

lemma takeWhile_Nil_iff: "(takeWhile P u = []) = (u = [] \<or> \<not> P (hd u))"
  by (cases u) auto

lemma parseFloat_NaN_iff:
  "isNaN (parseFloat s) =
     (let u = snd (stripSign (trimStart s))
      in \<not> startsWith ''Infinity'' u
         \<and> \<not> (u \<noteq> [] \<and> isRadixDigit 10 (hd u))
         \<and> \<not> (startsWith ''.'' u \<and> tl u \<noteq> [] \<and> isRadixDigit 10 (hd (tl u))))"
proof -
  obtain neg u where u: "stripSign (trimStart s) = (neg, u)"
    by (cases "stripSign (trimStart s)")
  show ?thesis
  proof (cases "startsWith ''Infinity'' u")
    case True
    with u show ?thesis
      by (simp add: parseFloat_def isNaN_def)
  next
    case inf: False
    show ?thesis
    proof (cases u)
      case Nil
      with u show ?thesis
        by (simp add: parseFloat_def isNaN_def startsWith_def)
    next
      case (Cons c cs)
      show ?thesis
      proof (cases "isRadixDigit 10 c")
        case True
        with u inf Cons show ?thesis
          by (simp add: parseFloat_def isNaN_def Let_def)
      next
        case False
        have dot: "startsWith ''.'' (c # cs) = (c = CHR ''.'')"
          by (auto simp: startsWith_Cons startsWith_Nil)
        from False u inf Cons show ?thesis
          by (simp add: parseFloat_def isNaN_def Let_def dot takeWhile_Nil_iff)
      qed
    qed
  qed
qed

subsection \<open>The request executor\<close>

lemma network_calls_Nil: "network_calls [] = 0"
  by (simp add: network_calls_def)

lemma network_calls_Cons:
  "network_calls (e # tr) = (case e of NetCall _ _ \<Rightarrow> 1 | _ \<Rightarrow> 0) + network_calls tr"
  by (cases e) (simp_all add: network_calls_def)

lemma network_calls_append: "network_calls (xs @ ys) = network_calls xs + network_calls ys"
  by (simp add: network_calls_def)

lemma report_no_calls:
  "network_calls [e] = (case e of NetCall _ _ \<Rightarrow> 1 | _ \<Rightarrow> 0)"
  by (simp add: network_calls_Cons network_calls_Nil)

lemma apiRequest_events:
  "fst (apiRequest fetch endpoint method body) =
     NetCall (API_BASE_URL @ endpoint) (build_options method body) #
       (case snd (apiRequest fetch endpoint method body) of
          Inl msg \<Rightarrow> [ApiRequestFailed method (API_BASE_URL @ endpoint) msg]
        | Inr v \<Rightarrow> [])"
  by (simp add: apiRequest_def Let_def split: sum.splits)

lemma apiRequest_returns:
  assumes "snd (apiRequest fetch endpoint method body) = Inr v"
  shows "apiRequest fetch endpoint method body
           = ([NetCall (API_BASE_URL @ endpoint) (build_options method body)], Inr v)"
  using assms apiRequest_events [of fetch endpoint "method" "body"]
  by (cases "apiRequest fetch endpoint method body") simp

lemma single_call_calls: "single_call url opts tr \<Longrightarrow> network_calls tr = 1"
  by (auto simp: single_call_def network_calls_Cons split: list.splits event.splits)

lemma single_call_append:
  "single_call url opts tr \<Longrightarrow> network_calls extra = 0 \<Longrightarrow> single_call url opts (tr @ extra)"
  by (auto simp: single_call_def network_calls_append split: list.splits event.splits)

lemma apiRequest_single_call:
  "single_call (API_BASE_URL @ endpoint) (build_options method body)
     (fst (apiRequest fetch endpoint method body))"
  by (simp add: apiRequest_events single_call_def network_calls_Cons network_calls_Nil
      split: sum.splits)

lemma after_apiRequest:
  assumes "apiRequest fetch endpoint method body = (tr, res)"
    and "network_calls extra = 0"
  shows "single_call (API_BASE_URL @ endpoint) (build_options method body) (tr @ extra)"
  using apiRequest_single_call [of endpoint "method" "body" fetch] assms
  by (simp add: single_call_append)

lemma build_options_None:
  "build_options method None = \<lparr>opt_method = method, opt_headers = [], opt_body = None\<rparr>"
  by (simp add: build_options_def)

lemma build_options_POST:
  "build_options ''POST'' (Some b) =
     \<lparr>opt_method = ''POST'', opt_headers = [(''Content-Type'', ''application/json'')],
      opt_body = Some (JSON_stringify b)\<rparr>"
  by (simp add: build_options_def)

subsection \<open>The branches of the dispatcher\<close>

lemma main_GET_accepted:
  assumes "path = ''products'' \<and> args = [] \<or> startsWith ''products/'' path"
  shows "single_call (API_BASE_URL @ endpoint)
           \<lparr>opt_method = ''GET'', opt_headers = [], opt_body = None\<rparr>
           (fst (main_GET fetch path endpoint args))"
proof -
  obtain tr res where a: "apiRequest fetch endpoint ''GET'' None = (tr, res)"
    by (cases "apiRequest fetch endpoint ''GET'' None")
  have "\<And>extra. network_calls extra = 0 \<Longrightarrow>
          single_call (API_BASE_URL @ endpoint)
            \<lparr>opt_method = ''GET'', opt_headers = [], opt_body = None\<rparr> (tr @ extra)"
    using after_apiRequest [OF a] by (simp add: build_options_None)
  from this [of "[]"] this
  show ?thesis
    using assms
    by (auto simp: main_GET_def a Let_def network_calls_Cons network_calls_Nil split: sum.splits)
qed

lemma main_GET_rejected:
  "\<not> (path = ''products'' \<and> args = [] \<or> startsWith ''products/'' path) \<Longrightarrow>
     main_GET fetch path endpoint args = ([InvalidRouteGET path], None)"
  by (auto simp: main_GET_def)

lemma main_POST_accepted:
  assumes "path = ''products''" and "3 \<le> length args" and "\<not> isNaN (parseFloat (args ! 1))"
  shows "single_call (API_BASE_URL @ endpoint)
           \<lparr>opt_method = ''POST'', opt_headers = [(''Content-Type'', ''application/json'')],
            opt_body = Some (JSON_stringify
              (newProduct (args ! 0) (parseFloat (args ! 1)) (args ! 2)
                 (element args 3) (element args 4)))\<rparr>
           (fst (main_POST fetch path endpoint args))"
proof -
  let ?b = "newProduct (args ! 0) (parseFloat (args ! 1)) (args ! 2) (element args 3) (element args 4)"
  obtain tr res where a: "apiRequest fetch endpoint ''POST'' (Some ?b) = (tr, res)"
    by (cases "apiRequest fetch endpoint ''POST'' (Some ?b)")
  have "\<And>extra. network_calls extra = 0 \<Longrightarrow>
          single_call (API_BASE_URL @ endpoint) (build_options ''POST'' (Some ?b)) (tr @ extra)"
    using after_apiRequest [OF a] by simp
  from this [of "[]"] this
  show ?thesis
    using assms
    by (auto simp: main_POST_def a Let_def build_options_POST network_calls_Cons network_calls_Nil
        simp del: One_nat_def split: sum.splits)
qed

lemma main_POST_rejected:
  "path \<noteq> ''products'' \<Longrightarrow> main_POST fetch path endpoint args = ([InvalidRoutePOST path], None)"
  "path = ''products'' \<Longrightarrow> length args < 3 \<Longrightarrow>
     main_POST fetch path endpoint args = ([PostMissingArguments, PostExample], None)"
  "path = ''products'' \<Longrightarrow> 3 \<le> length args \<Longrightarrow> isNaN (parseFloat (args ! 1)) \<Longrightarrow>
     main_POST fetch path endpoint args = ([InvalidPrice], None)"
  by (auto simp: main_POST_def Let_def)

lemma main_DELETE_rejected:
  "\<not> startsWith ''products/'' path \<Longrightarrow>
     main_DELETE fetch path endpoint = ([InvalidRouteDELETE path], None)"
  "path = ''products/'' @ suffix \<Longrightarrow> parseInt suffix = None \<Longrightarrow>
     main_DELETE fetch path endpoint = ([InvalidDeleteId], None)"
proof -
  show "\<not> startsWith ''products/'' path \<Longrightarrow>
     main_DELETE fetch path endpoint = ([InvalidRouteDELETE path], None)"
    by (simp add: main_DELETE_def)
next
  assume p: "path = ''products/'' @ suffix" and n: "parseInt suffix = None"
  from p have "startsWith ''products/'' path"
    by (simp add: startsWith_iff_append)
  moreover from p have "element (split CHR ''/'' path) 1 = Some (segment suffix)"
    using element_split_products [of suffix] by simp
  moreover from n have "parseInt (segment suffix) = None"
    by (simp add: parseInt_segment)
  ultimately show "main_DELETE fetch path endpoint = ([InvalidDeleteId], None)"
    by (simp add: main_DELETE_def del: One_nat_def)
qed

lemma main_DELETE_accepted:
  assumes p: "path = ''products/'' @ suffix" and n: "parseInt suffix \<noteq> None"
  shows "single_call (API_BASE_URL @ endpoint)
           \<lparr>opt_method = ''DELETE'', opt_headers = [], opt_body = None\<rparr>
           (fst (main_DELETE fetch path endpoint))"
proof -
  from p have s: "startsWith ''products/'' path"
    by (simp add: startsWith_iff_append)
  from p have e: "element (split CHR ''/'' path) 1 = Some (segment suffix)"
    using element_split_products [of suffix] by simp
  from n have i: "parseInt (segment suffix) \<noteq> None"
    by (simp add: parseInt_segment)
  then have ne: "segment suffix \<noteq> []"
    using parseInt_Nil by metis
  obtain tr res where a: "apiRequest fetch endpoint ''DELETE'' None = (tr, res)"
    by (cases "apiRequest fetch endpoint ''DELETE'' None")
  have "\<And>extra. network_calls extra = 0 \<Longrightarrow>
          single_call (API_BASE_URL @ endpoint)
            \<lparr>opt_method = ''DELETE'', opt_headers = [], opt_body = None\<rparr> (tr @ extra)"
    using after_apiRequest [OF a] by (simp add: build_options_None)
  from this [of "[]"] this
  show ?thesis
    using i ne
    by (auto simp: main_DELETE_def s e a network_calls_Cons network_calls_Nil
        simp del: One_nat_def split: sum.splits)
qed

subsection \<open>The whole program\<close>

lemma main_dispatch:
  assumes "drop 2 argv = command # path # args" and "command \<noteq> []" and "path \<noteq> []"
  shows "main fetch argv =
    (case (if toUpperCase command = ''GET'' then main_GET fetch path (''/'' @ path) args
           else if toUpperCase command = ''POST'' then main_POST fetch path (''/'' @ path) args
           else if toUpperCase command = ''DELETE'' then main_DELETE fetch path (''/'' @ path)
           else ([UnrecognizedCommand command], None)) of
       (tr, None) \<Rightarrow> tr
     | (tr, Some msg) \<Rightarrow> tr @ [MainOperationError msg])"
  using assms by (simp add: main_def Let_def split: prod.splits)

lemma main_usage:
  assumes "length (drop 2 argv) < 2 \<or> hd (drop 2 argv) = [] \<or> hd (tl (drop 2 argv)) = []"
  shows "main fetch argv = [Usage]"
proof (cases "drop 2 argv")
  case Nil
  then show ?thesis by (simp add: main_def)
next
  case (Cons command rest)
  note c = this
  show ?thesis
  proof (cases rest)
    case Nil
    with c show ?thesis by (simp add: main_def)
  next
    case (Cons path args)
    with c assms have "command = [] \<or> path = []"
      by auto
    with c Cons show ?thesis by (auto simp: main_def)
  qed
qed

lemma caught_single_call:
  assumes "single_call url opts (fst r)"
  shows "single_call url opts (case r of (tr, None) \<Rightarrow> tr | (tr, Some msg) \<Rightarrow> tr @ [MainOperationError msg])"
  using assms
  by (cases r) (auto simp: single_call_append network_calls_Cons network_calls_Nil split: option.splits)

lemma main_GET_call:
  assumes "drop 2 argv = command # path # args" and "command \<noteq> []" and "path \<noteq> []"
    and "toUpperCase command = ''GET''"
    and "path = ''products'' \<and> args = [] \<or> startsWith ''products/'' path"
  shows "single_call (API_BASE_URL @ ''/'' @ path)
           \<lparr>opt_method = ''GET'', opt_headers = [], opt_body = None\<rparr> (main fetch argv)"
proof -
  from assms(5)
  have "single_call (API_BASE_URL @ ''/'' @ path)
          \<lparr>opt_method = ''GET'', opt_headers = [], opt_body = None\<rparr>
          (fst (main_GET fetch path (''/'' @ path) args))"
    by (rule main_GET_accepted)
  then show ?thesis
    unfolding main_dispatch [OF assms(1-3)] using assms(4) by (simp add: caught_single_call)
qed

lemma main_GET_invalid:
  assumes "drop 2 argv = command # path # args" and "command \<noteq> []" and "path \<noteq> []"
    and "toUpperCase command = ''GET''"
    and "\<not> (path = ''products'' \<and> args = [] \<or> startsWith ''products/'' path)"
  shows "main fetch argv = [InvalidRouteGET path]"
  unfolding main_dispatch [OF assms(1-3)] using assms(4,5) by (simp add: main_GET_rejected)

lemma main_POST_call:
  assumes "drop 2 argv = command # path # args" and "command \<noteq> []" and "path \<noteq> []"
    and "toUpperCase command = ''POST''"
    and "path = ''products''" and "3 \<le> length args" and "\<not> isNaN (parseFloat (args ! 1))"
  shows "single_call (API_BASE_URL @ ''/'' @ path)
           \<lparr>opt_method = ''POST'', opt_headers = [(''Content-Type'', ''application/json'')],
            opt_body = Some (JSON_stringify
              (newProduct (args ! 0) (parseFloat (args ! 1)) (args ! 2)
                 (element args 3) (element args 4)))\<rparr> (main fetch argv)"
proof -
  from assms(5-7)
  have "single_call (API_BASE_URL @ ''/'' @ path)
           \<lparr>opt_method = ''POST'', opt_headers = [(''Content-Type'', ''application/json'')],
            opt_body = Some (JSON_stringify
              (newProduct (args ! 0) (parseFloat (args ! 1)) (args ! 2)
                 (element args 3) (element args 4)))\<rparr>
           (fst (main_POST fetch path (''/'' @ path) args))"
    by (rule main_POST_accepted)
  then show ?thesis
    unfolding main_dispatch [OF assms(1-3)] using assms(4)
    by (simp add: caught_single_call del: One_nat_def)
qed

lemma main_POST_invalid:
  assumes "drop 2 argv = command # path # args" and "command \<noteq> []" and "path \<noteq> []"
    and "toUpperCase command = ''POST''"
  shows "path \<noteq> ''products'' \<Longrightarrow> main fetch argv = [InvalidRoutePOST path]"
    and "path = ''products'' \<Longrightarrow> length args < 3 \<Longrightarrow>
           main fetch argv = [PostMissingArguments, PostExample]"
    and "path = ''products'' \<Longrightarrow> 3 \<le> length args \<Longrightarrow> isNaN (parseFloat (args ! 1)) \<Longrightarrow>
           main fetch argv = [InvalidPrice]"
  unfolding main_dispatch [OF assms(1-3)] using assms(4)
  by (simp_all add: main_POST_rejected del: One_nat_def)

lemma main_DELETE_call:
  assumes "drop 2 argv = command # path # args" and "command \<noteq> []"
    and "toUpperCase command = ''DELETE''"
    and "path = ''products/'' @ suffix" and "parseInt suffix \<noteq> None"
  shows "single_call (API_BASE_URL @ ''/'' @ path)
           \<lparr>opt_method = ''DELETE'', opt_headers = [], opt_body = None\<rparr> (main fetch argv)"
proof -
  from assms(4) have ne: "path \<noteq> []" by simp
  from assms(4,5)
  have "single_call (API_BASE_URL @ ''/'' @ path)
           \<lparr>opt_method = ''DELETE'', opt_headers = [], opt_body = None\<rparr>
           (fst (main_DELETE fetch path (''/'' @ path)))"
    by (rule main_DELETE_accepted)
  then show ?thesis
    unfolding main_dispatch [OF assms(1,2) ne] using assms(3) by (simp add: caught_single_call)
qed

lemma main_DELETE_invalid:
  assumes "drop 2 argv = command # path # args" and "command \<noteq> []" and "path \<noteq> []"
    and "toUpperCase command = ''DELETE''"
  shows "\<not> startsWith ''products/'' path \<Longrightarrow> main fetch argv = [InvalidRouteDELETE path]"
    and "path = ''products/'' @ suffix \<Longrightarrow> parseInt suffix = None \<Longrightarrow>
           main fetch argv = [InvalidDeleteId]"
  unfolding main_dispatch [OF assms(1-3)] using assms(4)
  by (simp_all add: main_DELETE_rejected(1) main_DELETE_rejected(2) [of _ suffix])

lemma main_unrecognized:
  assumes "drop 2 argv = command # path # args" and "command \<noteq> []" and "path \<noteq> []"
    and "toUpperCase command \<noteq> ''GET''" and "toUpperCase command \<noteq> ''POST''"
    and "toUpperCase command \<noteq> ''DELETE''"
  shows "main fetch argv = [UnrecognizedCommand command]"
  unfolding main_dispatch [OF assms(1-3)] using assms(4-6) by simp

subsection \<open>Projecting a field\<close>

lemma main_GET_field:
  assumes "drop 2 argv = command # path # field # rest" and "command \<noteq> []"
    and "toUpperCase command = ''GET''" and "startsWith ''products/'' path"
    and "snd (apiRequest fetch (''/'' @ path) ''GET'' None) = Inr productData"
  shows "main fetch argv =
           NetCall (API_BASE_URL @ ''/'' @ path)
             \<lparr>opt_method = ''GET'', opt_headers = [], opt_body = None\<rparr> #
           (if isObject productData \<and> hasProperty field productData then
              [FieldValue field (interpolate (element (split CHR ''/'' path) 1))
                 (getProperty productData field)]
            else if isObject productData then
              [FieldNotFound field (interpolate (element (split CHR ''/'' path) 1)),
               AvailableFields (Object_keys productData)]
            else [NotAnObject path productData])"
proof -
  from assms(4) have ne: "path \<noteq> []"
    by (auto simp: startsWith_def)
  from assms(4) have np: "path \<noteq> ''products''"
    by (auto simp: startsWith_def)
  have a: "apiRequest fetch (CHR ''/'' # path) ''GET'' None
             = ([NetCall (API_BASE_URL @ CHR ''/'' # path) (build_options ''GET'' None)], Inr productData)"
    using apiRequest_returns [OF assms(5)] by simp
  show ?thesis
    unfolding main_dispatch [OF assms(1,2) ne]
    using assms(3,4) np
    by (simp add: main_GET_def a build_options_None Let_def del: One_nat_def)
qed

lemma get_field_own_key:
  assumes "drop 2 argv = command # path # field # rest" and "command \<noteq> []"
    and "toUpperCase command = ''GET''" and "startsWith ''products/'' path"
    and "snd (apiRequest fetch (''/'' @ path) ''GET'' None) = Inr (JObj ps)"
    and "map_of ps field = Some x"
  shows "main fetch argv =
           [NetCall (API_BASE_URL @ ''/'' @ path)
              \<lparr>opt_method = ''GET'', opt_headers = [], opt_body = None\<rparr>,
            FieldValue field (interpolate (element (split CHR ''/'' path) 1)) (Own x)]"
proof -
  from assms(6) have "field \<in> fst ` set ps"
    by (rule map_of_SomeD [THEN imageI, of _ _ _ fst, simplified])
  with assms(6) show ?thesis
    unfolding main_GET_field [OF assms(1-5)]
    by (simp add: isObject_def hasProperty_def hasOwn_def getProperty_def)
qed

lemma get_field_absent_key:
  assumes "drop 2 argv = command # path # field # rest" and "command \<noteq> []"
    and "toUpperCase command = ''GET''" and "startsWith ''products/'' path"
    and "snd (apiRequest fetch (''/'' @ path) ''GET'' None) = Inr (JObj ps)"
    and "field \<notin> fst ` set ps" and "field \<notin> set object_prototype"
  shows "main fetch argv =
           [NetCall (API_BASE_URL @ ''/'' @ path)
              \<lparr>opt_method = ''GET'', opt_headers = [], opt_body = None\<rparr>,
            FieldNotFound field (interpolate (element (split CHR ''/'' path) 1)),
            AvailableFields (map fst ps)]"
  using assms(6,7)
  unfolding main_GET_field [OF assms(1-5)]
  by (simp add: isObject_def hasProperty_def hasOwn_def Object_keys_def)

lemma get_field_inherited:
  assumes "drop 2 argv = command # path # field # rest" and "command \<noteq> []"
    and "toUpperCase command = ''GET''" and "startsWith ''products/'' path"
    and "snd (apiRequest fetch (''/'' @ path) ''GET'' None) = Inr (JObj ps)"
    and "field \<notin> fst ` set ps" and "field \<in> set object_prototype"
  shows "main fetch argv =
           [NetCall (API_BASE_URL @ ''/'' @ path)
              \<lparr>opt_method = ''GET'', opt_headers = [], opt_body = None\<rparr>,
            FieldValue field (interpolate (element (split CHR ''/'' path) 1)) (Inherited field)]"
proof -
  from assms(6) have "map_of ps field = None"
    by (simp add: map_of_eq_None_iff)
  with assms(7) show ?thesis
    unfolding main_GET_field [OF assms(1-5)]
    by (simp add: isObject_def hasProperty_def getProperty_def)
qed

subsection \<open>The number of network calls\<close>

lemma single_call_not_report:
  assumes "single_call url opts tr"
  shows "\<not> local_report tr"
proof (cases tr)
  case Nil
  with assms show ?thesis by (simp add: single_call_def)
next
  case (Cons e rest)
  with assms obtain u o' where "e = NetCall u o'"
    by (cases e) (simp_all add: single_call_def)
  with Cons show ?thesis by (simp add: local_report_def)
qed

lemma forwarded_call:
  assumes "single_call url opts tr" and "accepted argv"
  shows "network_calls tr = (if accepted argv then 1 else 0) \<and> local_report tr = (\<not> accepted argv)"
  using assms by (simp add: single_call_calls single_call_not_report)

lemma main_calls:
  "network_calls (main fetch argv) = (if accepted argv then 1 else 0)
   \<and> local_report (main fetch argv) = (\<not> accepted argv)"
proof (cases "\<exists>command path args. drop 2 argv = command # path # args \<and> command \<noteq> [] \<and> path \<noteq> []")
  case False
  then have "length (drop 2 argv) < 2 \<or> hd (drop 2 argv) = [] \<or> hd (tl (drop 2 argv)) = []"
    by (cases "drop 2 argv"; cases "tl (drop 2 argv)") auto
  then have "main fetch argv = [Usage]"
    by (rule main_usage)
  moreover from False have "\<not> accepted argv"
    by (auto simp: accepted_def split: list.splits)
  ultimately show ?thesis
    by (simp add: report_no_calls local_report_def)
next
  case True
  then obtain command path args where
    t: "drop 2 argv = command # path # args" "command \<noteq> []" "path \<noteq> []"
    by blast
  let ?verb = "toUpperCase command"
  from t have acc: "accepted argv = forwarded ?verb path args"
    by (simp add: accepted_def)
  consider (get) "?verb = ''GET''" | (post) "?verb = ''POST''" | (del) "?verb = ''DELETE''"
    | (other) "?verb \<noteq> ''GET''" "?verb \<noteq> ''POST''" "?verb \<noteq> ''DELETE''"
    by blast
  then show ?thesis
  proof cases
    case get
    show ?thesis
    proof (cases "path = ''products'' \<and> args = [] \<or> startsWith ''products/'' path")
      case True
      with t get have "single_call (API_BASE_URL @ ''/'' @ path)
           \<lparr>opt_method = ''GET'', opt_headers = [], opt_body = None\<rparr> (main fetch argv)"
        by (rule main_GET_call)
      moreover from True get have "accepted argv"
        by (simp add: acc forwarded_def)
      ultimately show ?thesis
        by (rule forwarded_call)
    next
      case False
      with t get have "main fetch argv = [InvalidRouteGET path]"
        by (rule main_GET_invalid)
      with False get show ?thesis
        by (simp add: acc forwarded_def report_no_calls local_report_def)
    qed
  next
    case post
    show ?thesis
    proof (cases "path = ''products'' \<and> 3 \<le> length args \<and> \<not> isNaN (parseFloat (args ! 1))")
      case True
      with t post have "single_call (API_BASE_URL @ ''/'' @ path)
           \<lparr>opt_method = ''POST'', opt_headers = [(''Content-Type'', ''application/json'')],
            opt_body = Some (JSON_stringify
              (newProduct (args ! 0) (parseFloat (args ! 1)) (args ! 2)
                 (element args 3) (element args 4)))\<rparr> (main fetch argv)"
        by (blast intro: main_POST_call)
      moreover from True post have "accepted argv"
        by (simp add: acc forwarded_def)
      ultimately show ?thesis
        by (rule forwarded_call)
    next
      case False
      then consider "path \<noteq> ''products''" | "path = ''products''" "length args < 3"
        | "path = ''products''" "3 \<le> length args" "isNaN (parseFloat (args ! 1))"
        by fastforce
      then have "main fetch argv \<in> {[InvalidRoutePOST path], [PostMissingArguments, PostExample], [InvalidPrice]}"
        using main_POST_invalid [OF t post, of fetch] by cases simp_all
      then have "local_report (main fetch argv) \<and> network_calls (main fetch argv) = 0"
        by (auto simp: network_calls_Cons network_calls_Nil local_report_def)
      with False post show ?thesis
        by (auto simp: acc forwarded_def)
    qed
  next
    case del
    show ?thesis
    proof (cases "startsWith ''products/'' path")
      case False
      with t del have "main fetch argv = [InvalidRouteDELETE path]"
        by (simp add: main_DELETE_invalid(1))
      with False del show ?thesis
        by (simp add: acc forwarded_def report_no_calls local_report_def)
    next
      case True
      then obtain suffix where p: "path = ''products/'' @ suffix"
        by (auto simp: startsWith_iff_append)
      then have d: "drop (length ''products/'') path = suffix"
        by simp
      show ?thesis
      proof (cases "parseInt suffix")
        case None
        with p have "main fetch argv = [InvalidDeleteId]"
          using main_DELETE_invalid(2) [OF t del, of suffix fetch] by simp
        with None del d show ?thesis
          by (simp add: acc forwarded_def report_no_calls local_report_def)
      next
        case (Some i)
        with p have "single_call (API_BASE_URL @ ''/'' @ path)
           \<lparr>opt_method = ''DELETE'', opt_headers = [], opt_body = None\<rparr> (main fetch argv)"
          using main_DELETE_call [OF t(1,2) del, of suffix fetch] by simp
        moreover from Some del d True have "accepted argv"
          by (simp add: acc forwarded_def)
        ultimately show ?thesis
          by (rule forwarded_call)
      qed
    qed
  next
    case other
    with t have "main fetch argv = [UnrecognizedCommand command]"
      by (simp add: main_unrecognized)
    with other show ?thesis
      by (simp add: acc forwarded_def report_no_calls local_report_def)
  qed
qed

lemma isFinite_not_NaN: "isFinite x \<Longrightarrow> \<not> isNaN x"
  by (auto simp: isFinite_def isNaN_def)

lemma well_formed_forwarded: "well_formed verb path args \<Longrightarrow> forwarded verb path args"
  by (auto simp: well_formed_def forwarded_def isFinite_not_NaN simp del: One_nat_def)

lemma read_response_Inr:
  "(read_response r = Inr v) =
     (ok r \<and> (if namesJson (resp_contentType r) then resp_json r = Inr v
               else v = statusMessage (resp_status r)))"
  by (auto simp: read_response_def split: sum.splits)

section \<open>The claims\<close>

subsection \<open>C1: projecting a field\<close>

text \<open>
  C1. For \<open>GET products/<id> <field>\<close> with an object fetched, the field is to be
  emitted when it is one of the object's own keys, and FieldNotFound reported, with the
  object's keys, when it is not. The program tests \<open>field in productData\<close>, which also
  holds for the members every object inherits, while it lists the available fields with
  \<open>Object.keys\<close>. Evaluated on \<open>GET products/1 toString\<close> with the reply
  \<open>{id: 1, title: "Backpack"}\<close>: \<open>toString\<close> is not an own key and not among the
  listed keys, and the program makes its one network call and then emits the inherited
  member instead of reporting that the field does not exist. (Lemmas
  \<open>get_field_own_key\<close> and \<open>get_field_absent_key\<close> above show the two cases in which
  the program does what the claim says.)
\<close>

theorem get_field_inherited_key:
  "\<not> hasOwn backpack ''toString''
   \<and> Object_keys backpack = [''id'', ''title'']
   \<and> main (replies (json_reply backpack)) [''node'', ''index.js'', ''GET'', ''products/1'', ''toString'']
       = [NetCall ''https://fakestoreapi.com/products/1''
            \<lparr>opt_method = ''GET'', opt_headers = [], opt_body = None\<rparr>,
          FieldValue ''toString'' ''1'' (Inherited ''toString'')]"
  by code_simp

subsection \<open>C2: the price of a new product\<close>

text \<open>
  C2, amended. For POST with the path \<open>products\<close> and three extra arguments or more:
  when the price argument parses to NaN, a validation error is reported and no network
  request is issued; when it parses to any other number, an infinity included, one POST
  request is issued whose payload carries that number as \<open>price\<close>.
\<close>

theorem post_price_not_NaN:
  assumes "drop 2 argv = command # ''products'' # args" and "command \<noteq> []"
    and "toUpperCase command = ''POST''" and "3 \<le> length args"
  shows "(isNaN (parseFloat (args ! 1)) \<longrightarrow>
            main fetch argv = [InvalidPrice] \<and> network_calls (main fetch argv) = 0)
       \<and> (\<not> isNaN (parseFloat (args ! 1)) \<longrightarrow>
            (\<exists>payload. single_call (API_BASE_URL @ ''/products'')
               \<lparr>opt_method = ''POST'', opt_headers = [(''Content-Type'', ''application/json'')],
                opt_body = Some (JSON_stringify payload)\<rparr> (main fetch argv)
              \<and> map_of payload ''price'' = Some (JNum (parseFloat (args ! 1))))
            \<and> network_calls (main fetch argv) = 1)"
proof (intro conjI impI)
  assume "isNaN (parseFloat (args ! 1))"
  with assms show r: "main fetch argv = [InvalidPrice]"
    using main_POST_invalid(3) [of argv command "''products''" args fetch] by simp
  show "network_calls (main fetch argv) = 0"
    by (simp add: r report_no_calls)
next
  assume "\<not> isNaN (parseFloat (args ! 1))"
  with assms have c: "single_call (API_BASE_URL @ ''/'' @ ''products'')
           \<lparr>opt_method = ''POST'', opt_headers = [(''Content-Type'', ''application/json'')],
            opt_body = Some (JSON_stringify
              (newProduct (args ! 0) (parseFloat (args ! 1)) (args ! 2)
                 (element args 3) (element args 4)))\<rparr> (main fetch argv)"
    using main_POST_call [of argv command "''products''" args fetch] by simp
  then show "network_calls (main fetch argv) = 1"
    by (rule single_call_calls)
  have "map_of (newProduct (args ! 0) (parseFloat (args ! 1)) (args ! 2)
                 (element args 3) (element args 4)) ''price'' = Some (JNum (parseFloat (args ! 1)))"
    by (simp add: newProduct_def)
  with c show "\<exists>payload. single_call (API_BASE_URL @ ''/products'')
               \<lparr>opt_method = ''POST'', opt_headers = [(''Content-Type'', ''application/json'')],
                opt_body = Some (JSON_stringify payload)\<rparr> (main fetch argv)
              \<and> map_of payload ''price'' = Some (JNum (parseFloat (args ! 1)))"
    by auto
qed

theorem post_price_not_NaN_witness:
  "drop 2 [''node'', ''index.js'', ''POST'', ''products'', ''T'', ''abc'', ''cat'']
     = [''POST'', ''products'', ''T'', ''abc'', ''cat'']
   \<and> toUpperCase ''POST'' = ''POST'' \<and> 3 \<le> length [''T'', ''abc'', ''cat'']
   \<and> isNaN (parseFloat ([''T'', ''abc'', ''cat''] ! 1))
   \<and> main offline [''node'', ''index.js'', ''POST'', ''products'', ''T'', ''abc'', ''cat''] = [InvalidPrice]
   \<and> \<not> isNaN (parseFloat ([''T'', ''9.99'', ''cat''] ! 1))
   \<and> network_calls (main offline [''node'', ''index.js'', ''POST'', ''products'', ''T'', ''9.99'', ''cat'']) = 1"
proof -
  have a: "drop 2 [''node'', ''index.js'', ''POST'', ''products'', ''T'', ''abc'', ''cat'']
             = ''POST'' # ''products'' # [''T'', ''abc'', ''cat'']"
    "drop 2 [''node'', ''index.js'', ''POST'', ''products'', ''T'', ''9.99'', ''cat'']
             = ''POST'' # ''products'' # [''T'', ''9.99'', ''cat'']"
    by simp_all
  have u: "toUpperCase ''POST'' = ''POST''"
    by code_simp
  have p: "isNaN (parseFloat ([''T'', ''abc'', ''cat''] ! 1))"
    "\<not> isNaN (parseFloat ([''T'', ''9.99'', ''cat''] ! 1))"
    by code_simp+
  from post_price_not_NaN [OF a(1) _ u, of offline] post_price_not_NaN [OF a(2) _ u, of offline] a u p
  show ?thesis by simp
qed

text \<open>
  C2 as stated requires a finite price. \<open>POST products T Infinity cat\<close>: the price
  parses to \<open>Infinity\<close>, which is not finite, and the request is issued.
\<close>

theorem post_price_infinity_counterexample:
  "parseFloat ''Infinity'' = Infinity False
   \<and> \<not> isFinite (parseFloat ''Infinity'')
   \<and> main (replies (json_reply backpack))
         [''node'', ''index.js'', ''POST'', ''products'', ''T'', ''Infinity'', ''cat'']
       = [NetCall ''https://fakestoreapi.com/products''
            \<lparr>opt_method = ''POST'',
             opt_headers = [(''Content-Type'', ''application/json'')],
             opt_body = Some (JSON_stringify
               [(''title'', JStr ''T''), (''price'', JNum (Infinity False)),
                (''category'', JStr ''cat''),
                (''description'', JStr ''Default product description''),
                (''image'', JStr ''https://calculo-intereses.onrender.com'')])\<rparr>,
          ProductCreated backpack]"
  by code_simp

subsection \<open>C3: the id of a deletion\<close>

text \<open>
  C3. For DELETE, a path that does not start with \<open>products/\<close> is an invalid route; a
  path \<open>products/<id>\<close> whose suffix does not parse as an integer (\<open>parseInt\<close> gives
  NaN) is a validation error; neither issues a network request. A suffix that parses as
  an integer is accepted and one DELETE request is issued.
\<close>

theorem delete_requires_integer_id:
  assumes "drop 2 argv = command # path # args" and "command \<noteq> []" and "path \<noteq> []"
    and "toUpperCase command = ''DELETE''"
  shows "(\<not> startsWith ''products/'' path \<longrightarrow>
            main fetch argv = [InvalidRouteDELETE path] \<and> network_calls (main fetch argv) = 0)
       \<and> (\<forall>suffix. path = ''products/'' @ suffix \<longrightarrow>
            (parseInt suffix = None \<longrightarrow>
               main fetch argv = [InvalidDeleteId] \<and> network_calls (main fetch argv) = 0)
          \<and> (parseInt suffix \<noteq> None \<longrightarrow>
               single_call (API_BASE_URL @ ''/'' @ path)
                 \<lparr>opt_method = ''DELETE'', opt_headers = [], opt_body = None\<rparr> (main fetch argv)
               \<and> network_calls (main fetch argv) = 1))"
proof (intro conjI allI impI)
  assume "\<not> startsWith ''products/'' path"
  with assms show r: "main fetch argv = [InvalidRouteDELETE path]"
    by (simp add: main_DELETE_invalid(1))
  show "network_calls (main fetch argv) = 0"
    by (simp add: r report_no_calls)
next
  fix suffix
  assume "path = ''products/'' @ suffix" "parseInt suffix = None"
  then show r: "main fetch argv = [InvalidDeleteId]"
    using main_DELETE_invalid(2) [OF assms, of suffix fetch] by simp
  show "network_calls (main fetch argv) = 0"
    by (simp add: r report_no_calls)
next
  fix suffix
  assume "path = ''products/'' @ suffix" "parseInt suffix \<noteq> None"
  then show c: "single_call (API_BASE_URL @ ''/'' @ path)
           \<lparr>opt_method = ''DELETE'', opt_headers = [], opt_body = None\<rparr> (main fetch argv)"
    using main_DELETE_call [OF assms(1,2,4), of suffix fetch] by simp
  then show "network_calls (main fetch argv) = 1"
    by (rule single_call_calls)
qed

theorem delete_requires_integer_id_witness:
  "drop 2 [''node'', ''index.js'', ''delete'', ''products/seven''] = [''delete'', ''products/seven'']
   \<and> toUpperCase ''delete'' = ''DELETE''
   \<and> ''products/seven'' = ''products/'' @ ''seven'' \<and> parseInt ''seven'' = None
   \<and> main offline [''node'', ''index.js'', ''delete'', ''products/seven''] = [InvalidDeleteId]
   \<and> ''products/7'' = ''products/'' @ ''7'' \<and> parseInt ''7'' \<noteq> None
   \<and> network_calls (main offline [''node'', ''index.js'', ''DELETE'', ''products/7'']) = 1"
proof -
  have a: "drop 2 [''node'', ''index.js'', ''delete'', ''products/seven''] = ''delete'' # ''products/seven'' # []"
    "drop 2 [''node'', ''index.js'', ''DELETE'', ''products/7''] = ''DELETE'' # ''products/7'' # []"
    by simp_all
  have u: "toUpperCase ''delete'' = ''DELETE''" "toUpperCase ''DELETE'' = ''DELETE''"
    by code_simp+
  have p: "parseInt ''seven'' = None" "parseInt ''7'' \<noteq> None"
    by code_simp+
  from delete_requires_integer_id [OF a(1) _ _ u(1), of offline]
    delete_requires_integer_id [OF a(2) _ _ u(2), of offline] a u p
  show ?thesis by simp
qed

subsection \<open>C4: the routes of GET\<close>

text \<open>
  C4, amended. For GET, the path \<open>products\<close> with no extra argument, and every path
  that starts with \<open>products/\<close> (whatever follows the slash, nothing included), issue
  one GET request for that path; every other path is an invalid route and issues no
  request.
\<close>

theorem get_routes:
  assumes "drop 2 argv = command # path # args" and "command \<noteq> []" and "path \<noteq> []"
    and "toUpperCase command = ''GET''"
  shows "(path = ''products'' \<and> args = [] \<or> startsWith ''products/'' path \<longrightarrow>
            single_call (API_BASE_URL @ ''/'' @ path)
              \<lparr>opt_method = ''GET'', opt_headers = [], opt_body = None\<rparr> (main fetch argv)
            \<and> network_calls (main fetch argv) = 1)
       \<and> (\<not> (path = ''products'' \<and> args = [] \<or> startsWith ''products/'' path) \<longrightarrow>
            main fetch argv = [InvalidRouteGET path] \<and> network_calls (main fetch argv) = 0)"
proof (intro conjI impI)
  assume "path = ''products'' \<and> args = [] \<or> startsWith ''products/'' path"
  with assms show c: "single_call (API_BASE_URL @ ''/'' @ path)
              \<lparr>opt_method = ''GET'', opt_headers = [], opt_body = None\<rparr> (main fetch argv)"
    by (rule main_GET_call)
  then show "network_calls (main fetch argv) = 1"
    by (rule single_call_calls)
next
  assume "\<not> (path = ''products'' \<and> args = [] \<or> startsWith ''products/'' path)"
  with assms show r: "main fetch argv = [InvalidRouteGET path]"
    by (rule main_GET_invalid)
  show "network_calls (main fetch argv) = 0"
    by (simp add: r report_no_calls)
qed

theorem get_routes_witness:
  "drop 2 [''node'', ''index.js'', ''get'', ''products/abc''] = [''get'', ''products/abc'']
   \<and> toUpperCase ''get'' = ''GET'' \<and> startsWith ''products/'' ''products/abc''
   \<and> network_calls (main offline [''node'', ''index.js'', ''get'', ''products/abc'']) = 1
   \<and> \<not> (''items'' = ''products'' \<and> [] = ([] :: string list) \<or> startsWith ''products/'' ''items'')
   \<and> main offline [''node'', ''index.js'', ''get'', ''items''] = [InvalidRouteGET ''items'']"
proof -
  have a: "drop 2 [''node'', ''index.js'', ''get'', ''products/abc''] = ''get'' # ''products/abc'' # []"
    "drop 2 [''node'', ''index.js'', ''get'', ''items''] = ''get'' # ''items'' # []"
    by simp_all
  have u: "toUpperCase ''get'' = ''GET''"
    by code_simp
  have s: "startsWith ''products/'' ''products/abc''" "\<not> startsWith ''products/'' ''items''"
    by code_simp+
  from get_routes [OF a(1) _ _ u, of offline] get_routes [OF a(2) _ _ u, of offline] a u s
  show ?thesis by simp
qed

text \<open>
  C4 as stated asks for a non-empty suffix after the slash. \<open>GET products/\<close>: the
  path is not \<open>products\<close>, its suffix is empty, and the request is issued; no invalid
  route is reported.
\<close>

theorem get_empty_suffix_counterexample:
  "''products/'' \<noteq> ''products''
   \<and> drop (length ''products/'') ''products/'' = []
   \<and> main (replies (json_reply (JArr []))) [''node'', ''index.js'', ''GET'', ''products/'']
       = [NetCall ''https://fakestoreapi.com/products/''
            \<lparr>opt_method = ''GET'', opt_headers = [], opt_body = None\<rparr>,
          ProductObtained (JArr [])]
   \<and> main (replies (json_reply (JArr []))) [''node'', ''index.js'', ''GET'', ''products/'']
       \<noteq> [InvalidRouteGET ''products/'']"
  by code_simp

subsection \<open>C5: the description and image of a new product\<close>

text \<open>
  C5, amended. For POST \<open>products\<close> with valid arguments, the fourth and fifth extra
  arguments are the payload's description and image when they are present and not
  empty; the default literals are substituted exactly when the argument is absent or is
  the empty string.
\<close>

theorem post_description_image_defaults:
  assumes "drop 2 argv = command # ''products'' # args" and "command \<noteq> []"
    and "toUpperCase command = ''POST''" and "3 \<le> length args"
    and "\<not> isNaN (parseFloat (args ! 1))"
  shows "single_call (API_BASE_URL @ ''/products'')
           \<lparr>opt_method = ''POST'', opt_headers = [(''Content-Type'', ''application/json'')],
            opt_body = Some (JSON_stringify
              [(''title'', JStr (args ! 0)),
               (''price'', JNum (parseFloat (args ! 1))),
               (''category'', JStr (args ! 2)),
               (''description'',
                  JStr (if 3 < length args \<and> args ! 3 \<noteq> [] then args ! 3
                        else ''Default product description'')),
               (''image'',
                  JStr (if 4 < length args \<and> args ! 4 \<noteq> [] then args ! 4
                        else ''https://calculo-intereses.onrender.com''))])\<rparr>
           (main fetch argv)"
proof -
  from assms have "single_call (API_BASE_URL @ ''/'' @ ''products'')
           \<lparr>opt_method = ''POST'', opt_headers = [(''Content-Type'', ''application/json'')],
            opt_body = Some (JSON_stringify
              (newProduct (args ! 0) (parseFloat (args ! 1)) (args ! 2)
                 (element args 3) (element args 4)))\<rparr> (main fetch argv)"
    using main_POST_call [of argv command "''products''" args fetch] by simp
  moreover have "newProduct (args ! 0) (parseFloat (args ! 1)) (args ! 2)
                   (element args 3) (element args 4) =
              [(''title'', JStr (args ! 0)),
               (''price'', JNum (parseFloat (args ! 1))),
               (''category'', JStr (args ! 2)),
               (''description'',
                  JStr (if 3 < length args \<and> args ! 3 \<noteq> [] then args ! 3
                        else ''Default product description'')),
               (''image'',
                  JStr (if 4 < length args \<and> args ! 4 \<noteq> [] then args ! 4
                        else ''https://calculo-intereses.onrender.com''))]"
    by (simp add: newProduct_def orDefault_def element_def default_description_def
        default_image_def del: One_nat_def)
  ultimately show ?thesis
    by (simp del: One_nat_def)
qed

theorem post_description_image_defaults_witness:
  "drop 2 [''node'', ''index.js'', ''POST'', ''products'', ''T'', ''9.99'', ''cat'', ''Nice'']
     = [''POST'', ''products'', ''T'', ''9.99'', ''cat'', ''Nice'']
   \<and> toUpperCase ''POST'' = ''POST'' \<and> 3 \<le> length [''T'', ''9.99'', ''cat'', ''Nice'']
   \<and> \<not> isNaN (parseFloat ([''T'', ''9.99'', ''cat'', ''Nice''] ! 1))
   \<and> single_call ''https://fakestoreapi.com/products''
           \<lparr>opt_method = ''POST'', opt_headers = [(''Content-Type'', ''application/json'')],
            opt_body = Some (JSON_stringify
              [(''title'', JStr ''T''),
               (''price'', JNum (Decimal False 999 (- 2))),
               (''category'', JStr ''cat''),
               (''description'', JStr ''Nice''),
               (''image'', JStr ''https://calculo-intereses.onrender.com'')])\<rparr>
           (main offline [''node'', ''index.js'', ''POST'', ''products'', ''T'', ''9.99'', ''cat'', ''Nice''])"
proof -
  have a: "drop 2 [''node'', ''index.js'', ''POST'', ''products'', ''T'', ''9.99'', ''cat'', ''Nice'']
             = ''POST'' # ''products'' # [''T'', ''9.99'', ''cat'', ''Nice'']"
    by simp
  have u: "toUpperCase ''POST'' = ''POST''"
    by code_simp
  have p: "parseFloat ([''T'', ''9.99'', ''cat'', ''Nice''] ! 1) = Decimal False 999 (- 2)"
    by code_simp
  then have n: "\<not> isNaN (parseFloat ([''T'', ''9.99'', ''cat'', ''Nice''] ! 1))"
    by (simp add: isNaN_def)
  from post_description_image_defaults [OF a _ u _ n, of offline] a u p n
  show ?thesis by (simp add: API_BASE_URL_def)
qed

text \<open>
  C5 as stated substitutes the defaults only for absent arguments.
  \<open>POST products T 9.99 cat "" ""\<close>: both arguments are present, and the payload
  carries the defaults.
\<close>

theorem post_empty_description_counterexample:
  "element [''T'', ''9.99'', ''cat'', [], []] 3 = Some []
   \<and> element [''T'', ''9.99'', ''cat'', [], []] 4 = Some []
   \<and> main (replies (json_reply backpack))
         [''node'', ''index.js'', ''POST'', ''products'', ''T'', ''9.99'', ''cat'', [], []]
       = [NetCall ''https://fakestoreapi.com/products''
            \<lparr>opt_method = ''POST'',
             opt_headers = [(''Content-Type'', ''application/json'')],
             opt_body = Some (JSON_stringify
               [(''title'', JStr ''T''), (''price'', JNum (Decimal False 999 (- 2))),
                (''category'', JStr ''cat''),
                (''description'', JStr ''Default product description''),
                (''image'', JStr ''https://calculo-intereses.onrender.com'')])\<rparr>,
          ProductCreated backpack]"
  by code_simp

subsection \<open>C6: the body of a call\<close>

text \<open>
  C6. Every network call \<open>apiRequest\<close> makes has a body, and a \<open>Content-Type\<close>
  header, exactly when a payload is supplied and the method is POST or PUT; a GET or
  DELETE call has neither, also when a payload is supplied.
\<close>

theorem body_only_with_payload:
  assumes "NetCall url opts \<in> set (fst (apiRequest fetch endpoint method body))"
  shows "opt_method opts = method
       \<and> (opt_body opts \<noteq> None) = (body \<noteq> None \<and> (method = ''POST'' \<or> method = ''PUT''))
       \<and> (''Content-Type'' \<in> fst ` set (opt_headers opts))
           = (body \<noteq> None \<and> (method = ''POST'' \<or> method = ''PUT''))
       \<and> (method = ''GET'' \<or> method = ''DELETE'' \<longrightarrow> opt_body opts = None \<and> opt_headers opts = [])"
proof -
  from assms have "opts = build_options method body"
    by (auto simp: apiRequest_events split: sum.splits)
  then show ?thesis
    by (cases body) (auto simp: build_options_def)
qed

theorem body_only_with_payload_witness:
  "NetCall ''https://fakestoreapi.com/products/7''
       \<lparr>opt_method = ''DELETE'', opt_headers = [], opt_body = None\<rparr>
     \<in> set (fst (apiRequest offline ''/products/7'' ''DELETE'' (Some [(''id'', JStr ''7'')])))
   \<and> opt_body \<lparr>opt_method = ''DELETE'', opt_headers = [], opt_body = None\<rparr> = None"
proof -
  have "fst (apiRequest offline ''/products/7'' ''DELETE'' (Some [(''id'', JStr ''7'')])) =
          [NetCall ''https://fakestoreapi.com/products/7''
             \<lparr>opt_method = ''DELETE'', opt_headers = [], opt_body = None\<rparr>,
           ApiRequestFailed ''DELETE'' ''https://fakestoreapi.com/products/7'' ''fetch failed'']"
    by code_simp
  then have h: "NetCall ''https://fakestoreapi.com/products/7''
       \<lparr>opt_method = ''DELETE'', opt_headers = [], opt_body = None\<rparr>
     \<in> set (fst (apiRequest offline ''/products/7'' ''DELETE'' (Some [(''id'', JStr ''7'')])))"
    by simp
  from body_only_with_payload [OF h] h show ?thesis
    by simp
qed

subsection \<open>C7: the status message\<close>

text \<open>
  C7. For a successful reply whose content type does not name JSON, \<open>apiRequest\<close>
  returns the status message, and its text ends with the decimal numeral of the reply's
  status code, which reads back as that code.
\<close>

theorem status_message_embeds_status:
  assumes "fetch (API_BASE_URL @ endpoint) (build_options method body) = Inr r"
    and "ok r" and "\<not> namesJson (resp_contentType r)"
  shows "snd (apiRequest fetch endpoint method body)
           = Inr (JObj [(''message'',
                    JStr (''Operation successful. Status: '' @ decimal (resp_status r)))])
       \<and> parseInt (decimal (resp_status r)) = Some (int (resp_status r))"
  using assms
  by (simp add: apiRequest_def Let_def read_response_def statusMessage_def parseInt_decimal)

theorem status_message_embeds_status_witness:
  "replies no_content (API_BASE_URL @ ''/products/7'') (build_options ''DELETE'' None) = Inr no_content
   \<and> ok no_content \<and> \<not> namesJson (resp_contentType no_content)
   \<and> snd (apiRequest (replies no_content) ''/products/7'' ''DELETE'' None)
        = Inr (JObj [(''message'', JStr ''Operation successful. Status: 204'')])
   \<and> parseInt ''204'' = Some 204"
proof -
  have f: "replies no_content (API_BASE_URL @ ''/products/7'') (build_options ''DELETE'' None) = Inr no_content"
    by (simp add: replies_def)
  have k: "ok no_content" "\<not> namesJson (resp_contentType no_content)"
    by code_simp+
  have d: "decimal (resp_status no_content) = ''204''" "int (resp_status no_content) = 204"
    by code_simp+
  from status_message_embeds_status
         [of "replies no_content" "''/products/7''" "''DELETE''" None no_content] f k d
  show ?thesis
    by simp
qed

subsection \<open>C8: the number of network calls\<close>

text \<open>
  C8, amended. A request with a valid verb that is well formed issues exactly one
  network call. More widely, an invocation issues exactly one network call when it is
  one the dispatcher forwards, which includes GET with a path \<open>products/\<close> whose suffix
  is empty and POST with a price that parses to an infinity; every other invocation
  issues none and makes one local report: the usage help, an invalid route, a
  validation error or an unrecognized command.
\<close>

theorem dispatcher_calls_iff_forwarded:
  "network_calls (main fetch argv) = (if accepted argv then 1 else 0)
   \<and> local_report (main fetch argv) = (\<not> accepted argv)
   \<and> (\<forall>command path args.
         drop 2 argv = command # path # args \<and> command \<noteq> []
           \<and> well_formed (toUpperCase command) path args
         \<longrightarrow> network_calls (main fetch argv) = 1)"
proof (intro conjI allI impI)
  show "network_calls (main fetch argv) = (if accepted argv then 1 else 0)"
    using main_calls [of fetch argv] by simp
  show "local_report (main fetch argv) = (\<not> accepted argv)"
    using main_calls [of fetch argv] by simp
next
  fix command path args
  assume a: "drop 2 argv = command # path # args \<and> command \<noteq> []
               \<and> well_formed (toUpperCase command) path args"
  then have f: "forwarded (toUpperCase command) path args"
    by (simp add: well_formed_forwarded)
  from a have "path \<noteq> []"
    by (auto simp: well_formed_def startsWith_def)
  with a f have "accepted argv"
    by (simp add: accepted_def)
  then show "network_calls (main fetch argv) = 1"
    using main_calls [of fetch argv] by simp
qed

theorem dispatcher_calls_iff_forwarded_witness:
  "drop 2 [''node'', ''index.js'', ''get'', ''products/15''] = [''get'', ''products/15'']
   \<and> well_formed (toUpperCase ''get'') ''products/15'' []
   \<and> accepted [''node'', ''index.js'', ''get'', ''products/15'']
   \<and> network_calls (main offline [''node'', ''index.js'', ''get'', ''products/15'']) = 1
   \<and> \<not> local_report (main offline [''node'', ''index.js'', ''get'', ''products/15''])
   \<and> \<not> accepted [''node'', ''index.js'', ''delete'', ''products/seven'']
   \<and> network_calls (main offline [''node'', ''index.js'', ''delete'', ''products/seven'']) = 0
   \<and> local_report (main offline [''node'', ''index.js'', ''delete'', ''products/seven''])"
proof -
  have d: "drop 2 [''node'', ''index.js'', ''get'', ''products/15''] = [''get'', ''products/15'']"
    by simp
  have w: "well_formed (toUpperCase ''get'') ''products/15'' []"
    by code_simp
  have a: "accepted [''node'', ''index.js'', ''get'', ''products/15'']"
    "\<not> accepted [''node'', ''index.js'', ''delete'', ''products/seven'']"
    by code_simp+
  from dispatcher_calls_iff_forwarded [of offline "[''node'', ''index.js'', ''get'', ''products/15'']"]
    dispatcher_calls_iff_forwarded [of offline "[''node'', ''index.js'', ''delete'', ''products/seven'']"]
    d w a
  show ?thesis by simp
qed

text \<open>
  C8 as stated gives zero network calls to every request that is not well formed.
  \<open>GET products/\<close> is an invalid route in the specification's words (the suffix is
  empty), and \<open>POST products T Infinity cat\<close> a validation case (the price is not
  finite): each issues one network call, and no local report is made.
\<close>

theorem dispatcher_calls_counterexample:
  "\<not> well_formed (toUpperCase ''GET'') ''products/'' []
   \<and> network_calls
        (main (replies (json_reply (JArr []))) [''node'', ''index.js'', ''GET'', ''products/'']) = 1
   \<and> \<not> local_report
          (main (replies (json_reply (JArr []))) [''node'', ''index.js'', ''GET'', ''products/''])
   \<and> \<not> well_formed (toUpperCase ''POST'') ''products'' [''T'', ''Infinity'', ''cat'']
   \<and> network_calls
        (main (replies (json_reply backpack))
           [''node'', ''index.js'', ''POST'', ''products'', ''T'', ''Infinity'', ''cat'']) = 1
   \<and> \<not> local_report
          (main (replies (json_reply backpack))
             [''node'', ''index.js'', ''POST'', ''products'', ''T'', ''Infinity'', ''cat''])"
  by code_simp

subsection \<open>C9: the two kinds of result\<close>

text \<open>
  C9, amended. Every value \<open>apiRequest\<close> returns comes from a successful reply and is of
  one of the two kinds, never neither: a JsonValue, the parsed body, when the content
  type of the reply names JSON, and a StatusMessage for the status code of the reply
  otherwise. It is of exactly one kind unless the body of the reply parses to the
  status message of its own status code; the value carries no tag of its kind.
\<close>

theorem result_kind_by_content_type:
  assumes "snd (apiRequest fetch endpoint method body) = Inr v"
  shows "\<exists>r. fetch (API_BASE_URL @ endpoint) (build_options method body) = Inr r \<and> ok r
           \<and> (if namesJson (resp_contentType r) then JsonValue r v else StatusMessage r v)
           \<and> (resp_json r \<noteq> Inr (JObj [(''message'',
                  JStr (''Operation successful. Status: '' @ decimal (resp_status r)))])
                \<longrightarrow> JsonValue r v \<noteq> StatusMessage r v)"
proof (cases "fetch (API_BASE_URL @ endpoint) (build_options method body)")
  case (Inl msg)
  with assms show ?thesis
    by (simp add: apiRequest_def Let_def)
next
  case (Inr r)
  with assms have "read_response r = Inr v"
    by (simp add: apiRequest_def Let_def split: sum.splits)
  then have k: "ok r"
    "if namesJson (resp_contentType r) then resp_json r = Inr v
     else v = statusMessage (resp_status r)"
    by (simp_all add: read_response_Inr)
  from k(2) have one: "if namesJson (resp_contentType r) then JsonValue r v else StatusMessage r v"
    by (simp add: JsonValue_def StatusMessage_def statusMessage_def split: if_splits)
  have "JsonValue r v \<noteq> StatusMessage r v"
    if "resp_json r \<noteq> Inr (JObj [(''message'',
          JStr (''Operation successful. Status: '' @ decimal (resp_status r)))])"
  proof -
    from that have "\<not> (JsonValue r v \<and> StatusMessage r v)"
      by (auto simp: JsonValue_def StatusMessage_def)
    moreover from one have "JsonValue r v \<or> StatusMessage r v"
      by (simp split: if_splits)
    ultimately show ?thesis by blast
  qed
  with Inr k(1) one show ?thesis
    by blast
qed

theorem result_kind_by_content_type_witness:
  "snd (apiRequest (replies (json_reply backpack)) ''/products/1'' ''GET'' None) = Inr backpack
   \<and> (\<exists>r. replies (json_reply backpack) (API_BASE_URL @ ''/products/1'') (build_options ''GET'' None) = Inr r
          \<and> ok r
          \<and> (if namesJson (resp_contentType r) then JsonValue r backpack
              else StatusMessage r backpack)
          \<and> (resp_json r \<noteq> Inr (JObj [(''message'',
                  JStr (''Operation successful. Status: '' @ decimal (resp_status r)))])
                \<longrightarrow> JsonValue r backpack \<noteq> StatusMessage r backpack))
   \<and> JsonValue (json_reply backpack) backpack
   \<and> \<not> StatusMessage (json_reply backpack) backpack"
proof -
  have h: "snd (apiRequest (replies (json_reply backpack)) ''/products/1'' ''GET'' None) = Inr backpack"
    by code_simp
  have k: "JsonValue (json_reply backpack) backpack" "\<not> StatusMessage (json_reply backpack) backpack"
    by code_simp+
  from result_kind_by_content_type
         [of "replies (json_reply backpack)" "''/products/1''" "''GET''" None backpack] h k
  show ?thesis
    by simp
qed

text \<open>
  C9 as stated gives every result exactly one kind, never both. A JSON reply with the
  status 200 whose body is \<open>{"message": "Operation successful. Status: 200"}\<close>: the value
  returned is the parsed body, a JsonValue, and it is the status message for the status
  code of that reply, a StatusMessage. A reply with the same status and no JSON content
  type returns the same value.
\<close>

theorem result_both_kinds_counterexample:
  "snd (apiRequest (replies (json_reply status_shaped)) ''/products/1'' ''DELETE'' None)
     = Inr status_shaped
   \<and> JsonValue (json_reply status_shaped) status_shaped
   \<and> StatusMessage (json_reply status_shaped) status_shaped
   \<and> snd (apiRequest
            (replies ((json_reply status_shaped)\<lparr>resp_contentType := Some ''text/plain''\<rparr>))
            ''/products/1'' ''DELETE'' None)
     = Inr status_shaped"
  by code_simp

subsection \<open>C10: empty tokens\<close>

text \<open>
  C10. When the verb token or the path token is present but is the empty string, the
  program prints the usage help and issues no network request, as it does when fewer
  than two tokens are present.
\<close>

theorem usage_on_empty_token:
  assumes "drop 2 argv = tokens"
    and "length tokens < 2 \<or> (0 < length tokens \<and> tokens ! 0 = []) \<or> (1 < length tokens \<and> tokens ! 1 = [])"
  shows "main fetch argv = [Usage] \<and> network_calls (main fetch argv) = 0"
proof -
  from assms have "length (drop 2 argv) < 2 \<or> hd (drop 2 argv) = [] \<or> hd (tl (drop 2 argv)) = []"
    by (cases tokens; cases "tl tokens") auto
  then have "main fetch argv = [Usage]"
    by (rule main_usage)
  then show ?thesis
    by (simp add: network_calls_Cons network_calls_Nil)
qed

theorem usage_on_empty_token_witness:
  "drop 2 [''node'', ''index.js'', [], ''products''] = [[], ''products'']
   \<and> 0 < length [[], ''products''] \<and> [[], ''products''] ! 0 = []
   \<and> main offline [''node'', ''index.js'', [], ''products''] = [Usage]
   \<and> network_calls (main offline [''node'', ''index.js'', [], ''products'']) = 0"
  using usage_on_empty_token [of "[''node'', ''index.js'', [], ''products'']" "[[], ''products'']" offline]
  by auto

end
